theory Spec2Isabelle
  imports Main "HOL-Library.Word"
begin

section \<open>xrest: the request dispatcher and its mock registry\<close>

text \<open>
  Go's \<open>error\<close> interface values that the packages create or pass on. \<open>ErrorsNew s\<close> is
  \<open>errors.New(s)\<close>; the other constructors stand for errors made by the standard library
  (encoding/json, net/http) and handed back to the caller unchanged.
\<close>

datatype error =
    ErrorsNew string
  | JsonError string
  | HttpError string

type_synonym header = "(string \<times> string list) list"

text \<open>The \<open>Mock\<close> struct; \<open>'r\<close> is \<open>http.Response\<close>, a nil pointer is \<open>None\<close>.\<close>

record 'r Mock =
  URL :: string
  HTTPMethod :: string
  Response :: "'r option"
  Err :: "error option"

text \<open>
  The two package variables. \<open>mocks\<close> is a \<open>map[string]*Mock\<close>: reading a key that is
  absent yields the nil pointer, here \<open>None\<close>.
\<close>

record 'r xrest_state =
  enabledMocks :: bool
  mocks :: "string \<rightharpoonup> 'r Mock"

definition init_state :: "'r xrest_state" where
  "init_state = \<lparr>enabledMocks = False, mocks = Map.empty\<rparr>"

definition getMockID :: "string \<Rightarrow> string \<Rightarrow> string" where
  "getMockID httpMethod url = httpMethod @ ''_'' @ url"

definition StartMockups :: "'r xrest_state \<Rightarrow> 'r xrest_state" where
  "StartMockups st = st\<lparr>enabledMocks := True\<rparr>"

definition FlushMockups :: "'r xrest_state \<Rightarrow> 'r xrest_state" where
  "FlushMockups st = st\<lparr>mocks := Map.empty\<rparr>"

definition StopMockups :: "'r xrest_state \<Rightarrow> 'r xrest_state" where
  "StopMockups st = st\<lparr>enabledMocks := False\<rparr>"

definition AddMock :: "'r Mock \<Rightarrow> 'r xrest_state \<Rightarrow> 'r xrest_state" where
  "AddMock mock st = st\<lparr>mocks := (mocks st)(getMockID (HTTPMethod mock) (URL mock) \<mapsto> mock)\<rparr>"

text \<open>
  The \<open>body interface{}\<close> argument: the type assertion \<open>body.(string)\<close> succeeds exactly
  on \<open>BString\<close>; every other dynamic value is a \<open>BValue\<close>.
\<close>

datatype 'v body = BString string | BValue 'v

record request =
  req_method :: string
  req_url :: string
  req_body :: string
  req_header :: header

text \<open>
  What the dispatcher calls outside the package: \<open>json.Marshal\<close>, the checks of
  \<open>http.NewRequest\<close> on the method and the URL, \<open>url.Values.Encode\<close> and the transport
  \<open>http.Client.Do\<close>.
\<close>

record ('v, 'r) env =
  json_Marshal :: "'v \<Rightarrow> error + string"
  request_check :: "string \<Rightarrow> string \<Rightarrow> error option"
  values_Encode :: "header \<Rightarrow> string"
  client_Do :: "request \<Rightarrow> 'r option \<times> error option"

text \<open>
  \<open>http.NewRequest\<close>: rejects a bad method or URL, and otherwise builds the request around
  the payload it was given (an empty method means GET).
\<close>

definition NewRequest :: "('v, 'r) env \<Rightarrow> string \<Rightarrow> string \<Rightarrow> string \<Rightarrow> error + request" where
  "NewRequest env method url payload =
     (case request_check env method url of
        Some err \<Rightarrow> Inl err
      | None \<Rightarrow> Inr \<lparr>req_method = (if method = [] then ''GET'' else method), req_url = url,
                     req_body = payload, req_header = []\<rparr>)"

text \<open>
  A call either returns its pair \<open>(*http.Response, error)\<close> or panics on the nil pointer
  dereference \<open>mock.Response\<close>.
\<close>

datatype 'a outcome = NilPointerPanic | Returned 'a

definition MethodPost :: string where
  "MethodPost = ''POST''"

text \<open>
  Each dispatch function yields its outcome together with the requests it handed to the
  transport, in order.
\<close>

definition MakeRequest ::
  "('v, 'r) env \<Rightarrow> 'r xrest_state \<Rightarrow> string \<Rightarrow> string \<Rightarrow> 'v body \<Rightarrow> header
     \<Rightarrow> ('r option \<times> error option) outcome \<times> request list" where
  "MakeRequest env st method url body headers =
     (if enabledMocks st then
        (case mocks st (getMockID method url) of
           Some mock \<Rightarrow> (Returned (None, Some (ErrorsNew ''no mock found for given request'')), [])
         | None \<Rightarrow> (NilPointerPanic, []))
      else
        (case (case body of BString w \<Rightarrow> Inr w | BValue v \<Rightarrow> json_Marshal env v) of
           Inl err \<Rightarrow> (Returned (None, Some err), [])
         | Inr jsonBytes \<Rightarrow>
             (case NewRequest env method url jsonBytes of
                Inl err \<Rightarrow> (Returned (None, Some err), [])
              | Inr request \<Rightarrow>
                  (Returned (client_Do env (request\<lparr>req_header := headers\<rparr>)),
                   [request\<lparr>req_header := headers\<rparr>]))))"

definition Post ::
  "('v, 'r) env \<Rightarrow> 'r xrest_state \<Rightarrow> string \<Rightarrow> 'v body \<Rightarrow> header
     \<Rightarrow> ('r option \<times> error option) outcome \<times> request list" where
  "Post env st url body headers =
     (if enabledMocks st then
        (case mocks st (getMockID MethodPost url) of
           Some mock \<Rightarrow> (Returned (None, Some (ErrorsNew ''no mock found for given request'')), [])
         | None \<Rightarrow> (NilPointerPanic, []))
      else
        (case (case body of BString w \<Rightarrow> Inr w | BValue v \<Rightarrow> json_Marshal env v) of
           Inl err \<Rightarrow> (Returned (None, Some err), [])
         | Inr jsonBytes \<Rightarrow>
             (case NewRequest env MethodPost url jsonBytes of
                Inl err \<Rightarrow> (Returned (None, Some err), [])
              | Inr request \<Rightarrow>
                  (Returned (client_Do env (request\<lparr>req_header := headers\<rparr>)),
                   [request\<lparr>req_header := headers\<rparr>]))))"

definition PostForm ::
  "('v, 'r) env \<Rightarrow> 'r xrest_state \<Rightarrow> string \<Rightarrow> header \<Rightarrow> header
     \<Rightarrow> ('r option \<times> error option) outcome \<times> request list" where
  "PostForm env st url data headers =
     (if enabledMocks st then
        (case mocks st (getMockID MethodPost url) of
           Some mock \<Rightarrow> (Returned (None, Some (ErrorsNew ''no mock found for given request'')), [])
         | None \<Rightarrow> (NilPointerPanic, []))
      else
        (case NewRequest env MethodPost url (values_Encode env data) of
           Inl err \<Rightarrow> (Returned (None, Some err), [])
         | Inr request \<Rightarrow>
             (Returned (client_Do env (request\<lparr>req_header := headers\<rparr>)),
              [request\<lparr>req_header := headers\<rparr>])))"

section \<open>xlogger: levels and the filtering logger\<close>

text \<open>The severities of zapcore, in their order (\<open>DebugLevel = -1\<close> up to \<open>FatalLevel = 5\<close>).\<close>

datatype zap_level =
    zap_DebugLevel | zap_InfoLevel | zap_WarnLevel | zap_ErrorLevel
  | zap_DPanicLevel | zap_PanicLevel | zap_FatalLevel

fun level_num :: "zap_level \<Rightarrow> int" where
  "level_num zap_DebugLevel = -1"
| "level_num zap_InfoLevel = 0"
| "level_num zap_WarnLevel = 1"
| "level_num zap_ErrorLevel = 2"
| "level_num zap_DPanicLevel = 3"
| "level_num zap_PanicLevel = 4"
| "level_num zap_FatalLevel = 5"

text \<open>The exported level names of the package (\<open>type Level = string\<close>).\<close>

definition DebugLevel :: string where "DebugLevel = ''debug''"
definition InfoLevel :: string where "InfoLevel = ''info''"
definition WarningLevel :: string where "WarningLevel = ''warning''"
definition ErrorLevel :: string where "ErrorLevel = ''error''"

text \<open>The \<open>switch\<close> of \<open>getLevel\<close>, case by case.\<close>

definition getLevel :: "string \<Rightarrow> zap_level" where
  "getLevel level =
     (if level = ''debug'' then zap_DebugLevel
      else if level = ''info'' then zap_InfoLevel
      else if level = ''warn'' then zap_WarnLevel
      else if level = ''error'' then zap_ErrorLevel
      else if level = ''panic'' then zap_PanicLevel
      else if level = ''fatal'' then zap_FatalLevel
      else zap_InfoLevel)"

record Config =
  LogOutputTo :: "string list"
  LoggErrsTo :: "string list"

text \<open>
  The zap logger that \<open>zap.Config.Build\<close> returns, reduced to what decides whether and
  where a record is written: the enabled level, the output sinks, the sinks for zap's own
  errors and the initial fields (\<open>'f\<close> is the type of a field).
\<close>

record 'f zap_logger =
  zl_level :: zap_level
  zl_outputs :: "string list"
  zl_errors :: "string list"
  zl_fields :: "'f list"

record 'f entry =
  entry_level :: zap_level
  entry_msg :: string
  entry_fields :: "'f list"

text \<open>
  \<open>Build\<close> opens every sink and fails when one cannot be opened; \<open>can_open\<close> says which
  sink names the process can open.
\<close>

definition Build ::
  "(string \<Rightarrow> bool) \<Rightarrow> zap_level \<Rightarrow> string list \<Rightarrow> string list \<Rightarrow> 'f list
     \<Rightarrow> error + 'f zap_logger" where
  "Build can_open lvl outs errs meta =
     (if list_all can_open outs \<and> list_all can_open errs
      then Inr \<lparr>zl_level = lvl, zl_outputs = outs, zl_errors = errs, zl_fields = meta\<rparr>
      else Inl (ErrorsNew ''open sink''))"

definition NewLogger ::
  "(string \<Rightarrow> bool) \<Rightarrow> string \<Rightarrow> Config \<Rightarrow> 'f list \<Rightarrow> error + 'f zap_logger" where
  "NewLogger can_open level config withMeta =
     (let config = (if LogOutputTo config = [] then config\<lparr>LogOutputTo := [''stdout'']\<rparr> else config);
          config = (if LoggErrsTo config = [] then config\<lparr>LoggErrsTo := [''stderr'']\<rparr> else config)
      in case Build can_open (getLevel level) (LogOutputTo config) (LoggErrsTo config) withMeta of
           Inl err \<Rightarrow> Inl (ErrorsNew ''error setting up default logger'')
         | Inr internalLogger \<Rightarrow> Inr internalLogger)"

text \<open>
  A logging call of zap at severity \<open>lvl\<close>: the record is written to every output sink when
  \<open>lvl\<close> is at or above the logger's level, and nowhere otherwise. The result lists the
  writes as pairs of sink and record.
\<close>

definition zap_log ::
  "'f zap_logger \<Rightarrow> zap_level \<Rightarrow> string \<Rightarrow> 'f list \<Rightarrow> (string \<times> 'f entry) list" where
  "zap_log l lvl msg tags =
     (if level_num (zl_level l) \<le> level_num lvl
      then map (\<lambda>sink. (sink, \<lparr>entry_level = lvl, entry_msg = msg,
                                entry_fields = zl_fields l @ tags\<rparr>)) (zl_outputs l)
      else [])"

definition Debug :: "'f zap_logger \<Rightarrow> string \<Rightarrow> 'f list \<Rightarrow> (string \<times> 'f entry) list" where
  "Debug l msg tags = zap_log l zap_DebugLevel msg tags"

definition Info :: "'f zap_logger \<Rightarrow> string \<Rightarrow> 'f list \<Rightarrow> (string \<times> 'f entry) list" where
  "Info l msg tags = zap_log l zap_InfoLevel msg tags"

definition Warning :: "'f zap_logger \<Rightarrow> string \<Rightarrow> 'f list \<Rightarrow> (string \<times> 'f entry) list" where
  "Warning l msg tags = zap_log l zap_DebugLevel msg tags"

text \<open>\<open>named_error err\<close> is the field \<open>zap.NamedError("error", err)\<close>.\<close>

definition Error ::
  "(error option \<Rightarrow> 'f) \<Rightarrow> 'f zap_logger \<Rightarrow> string \<Rightarrow> error option \<Rightarrow> 'f list
     \<Rightarrow> (string \<times> 'f entry) list" where
  "Error named_error l msg err tags = zap_log l zap_ErrorLevel msg (tags @ [named_error err])"

section \<open>xerrors: the REST error value and its JSON form\<close>

text \<open>
  The struct \<open>restErr\<close> with its JSON field tags \<open>error\<close>, \<open>status_code\<close> and
  \<open>message\<close>. A Go string is a sequence of bytes, here a list of \<open>char\<close>; Go's \<open>int\<close>
  is taken as 64 bits wide and read as a signed number with \<open>sint\<close>.
\<close>

record restErr =
  ErrError :: bool
  ErrStatusCode :: "64 word"
  ErrMessage :: string

definition NewRestError :: "64 word \<Rightarrow> string \<Rightarrow> restErr" where
  "NewRestError status message = \<lparr>ErrError = True, ErrStatusCode = status, ErrMessage = message\<rparr>"

definition NewBadRequestError :: "string \<Rightarrow> restErr" where
  "NewBadRequestError message = \<lparr>ErrError = True, ErrStatusCode = 400, ErrMessage = message\<rparr>"


definition NewUnauthorizedError :: "string \<Rightarrow> restErr" where
  "NewUnauthorizedError message = \<lparr>ErrError = True, ErrStatusCode = 401, ErrMessage = message\<rparr>"

definition NewInternalServerError :: "string \<Rightarrow> restErr" where
  "NewInternalServerError message = \<lparr>ErrError = True, ErrStatusCode = 500, ErrMessage = message\<rparr>"

text \<open>
  \<open>NewRestErrorFromBytes\<close> hands the payload to \<open>json.Unmarshal\<close>, and the JSON form of a
  \<open>restErr\<close> is what \<open>json.Marshal\<close> writes for it. Both belong to Go's package
  encoding/json, which is not part of the repository. The definitions of the next subsections
  follow that package (with unicode/utf8, unicode/utf16 and strconv where it calls them) as far
  as the struct \<open>restErr\<close> needs: the scanner's grammar, the unquoting of string literals,
  the matching of member names with struct fields, the storing of values by field type, and
  the writing of booleans, integers and quoted strings.
\<close>

subsection \<open>UTF-8\<close>

text \<open>
  \<open>utf8.DecodeRune\<close> and \<open>utf8.EncodeRune\<close>, with the masks and shifts of the source written
  as \<open>mod\<close>, \<open>div\<close> and multiplication. \<open>first_byte\<close> is the table \<open>first\<close> joined with
  \<open>acceptRanges\<close>: for a lead byte, the length of the sequence and the range allowed for the
  second byte. An ill-formed sequence decodes to \<open>(RuneError, 1)\<close>.
\<close>

definition byte :: "char \<Rightarrow> nat" where
  "byte c = of_char c"

definition RuneError :: nat where
  "RuneError = 0xFFFD"

definition first_byte :: "nat \<Rightarrow> (nat \<times> nat \<times> nat) option" where
  "first_byte p0 =
     (if 0xC2 \<le> p0 \<and> p0 \<le> 0xDF then Some (2, 0x80, 0xBF)
      else if p0 = 0xE0 then Some (3, 0xA0, 0xBF)
      else if 0xE1 \<le> p0 \<and> p0 \<le> 0xEC then Some (3, 0x80, 0xBF)
      else if p0 = 0xED then Some (3, 0x80, 0x9F)
      else if 0xEE \<le> p0 \<and> p0 \<le> 0xEF then Some (3, 0x80, 0xBF)
      else if p0 = 0xF0 then Some (4, 0x90, 0xBF)
      else if 0xF1 \<le> p0 \<and> p0 \<le> 0xF3 then Some (4, 0x80, 0xBF)
      else if p0 = 0xF4 then Some (4, 0x80, 0x8F)
      else None)"

definition DecodeRune :: "string \<Rightarrow> nat \<times> nat" where
  "DecodeRune p =
     (if length p < 1 then (RuneError, 0)
      else let p0 = byte (p ! 0) in
        if p0 < 0x80 then (p0, 1)
        else case first_byte p0 of
          None \<Rightarrow> (RuneError, 1)
        | Some (sz, lo, hi) \<Rightarrow>
            if length p < sz then (RuneError, 1)
            else let b1 = byte (p ! 1) in
              if b1 < lo \<or> hi < b1 then (RuneError, 1)
              else if sz \<le> 2 then ((p0 mod 32) * 64 + b1 mod 64, 2)
              else let b2 = byte (p ! 2) in
                if b2 < 0x80 \<or> 0xBF < b2 then (RuneError, 1)
                else if sz \<le> 3 then ((p0 mod 16) * 4096 + (b1 mod 64) * 64 + b2 mod 64, 3)
                else let b3 = byte (p ! 3) in
                  if b3 < 0x80 \<or> 0xBF < b3 then (RuneError, 1)
                  else ((p0 mod 8) * 262144 + (b1 mod 64) * 4096 + (b2 mod 64) * 64 + b3 mod 64, 4))"

definition EncodeRune :: "nat \<Rightarrow> string" where
  "EncodeRune r =
     (if r \<le> 0x7F then [char_of r]
      else if r \<le> 0x7FF then [char_of (0xC0 + r div 64), char_of (0x80 + r mod 64)]
      else if r > 0x10FFFF \<or> (0xD800 \<le> r \<and> r \<le> 0xDFFF) then
        [char_of (0xEF::nat), char_of (0xBF::nat), char_of (0xBD::nat)]
      else if r \<le> 0xFFFF then
        [char_of (0xE0 + r div 4096), char_of (0x80 + (r div 64) mod 64), char_of (0x80 + r mod 64)]
      else
        [char_of (0xF0 + r div 262144), char_of (0x80 + (r div 4096) mod 64),
         char_of (0x80 + (r div 64) mod 64), char_of (0x80 + r mod 64)])"

lemma DecodeRune_size: "1 \<le> snd (DecodeRune (c # p))"
  by (simp add: DecodeRune_def Let_def split: option.split prod.split)

lemma DecodeRune_pos: "(r, n) = DecodeRune (c # p) \<Longrightarrow> 0 < n"
  using DecodeRune_size [of c p] by (cases "DecodeRune (c # p)") auto

subsection \<open>Writing a string: \<open>appendString\<close> of the encoder\<close>

text \<open>
  The encoder copies the bytes that are safe in JSON and in HTML, writes the short escapes
  for quote, backslash, backspace, form feed, newline, carriage return and tab, writes every
  other ASCII byte as \<open>\u00XX\<close>, replaces each byte that is not part of a well-formed
  UTF-8 sequence by \<open>\ufffd\<close>, writes U+2028 and U+2029 as escapes and copies every other
  well-formed sequence as it is. (Releases of Go before 1.22 write backspace and form feed as
  \<open>\u0008\<close> and \<open>\u000c\<close>; the decoder reads both spellings as the same byte.)
\<close>

definition dquote :: char where
  "dquote = CHR 0x22"

definition backslash :: char where
  "backslash = CHR 0x5C"

definition hex :: "nat \<Rightarrow> char" where
  "hex n = ''0123456789abcdef'' ! n"

definition hexval :: "char \<Rightarrow> nat option" where
  "hexval c =
     (if byte CHR ''0'' \<le> byte c \<and> byte c \<le> byte CHR ''9'' then Some (byte c - byte CHR ''0'')
      else if byte CHR ''a'' \<le> byte c \<and> byte c \<le> byte CHR ''f'' then Some (byte c - byte CHR ''a'' + 10)
      else if byte CHR ''A'' \<le> byte c \<and> byte c \<le> byte CHR ''F'' then Some (byte c - byte CHR ''A'' + 10)
      else None)"

definition htmlSafe :: "char \<Rightarrow> bool" where
  "htmlSafe c \<longleftrightarrow> 0x20 \<le> byte c \<and> byte c < 0x80 \<and> c \<noteq> dquote \<and> c \<noteq> backslash
     \<and> c \<noteq> CHR ''&'' \<and> c \<noteq> CHR ''<'' \<and> c \<noteq> CHR ''>''"

definition escape_ascii :: "char \<Rightarrow> string" where
  "escape_ascii c =
     (if c = backslash \<or> c = dquote then [backslash, c]
      else if c = CHR 0x08 then [backslash, CHR ''b'']
      else if c = CHR 0x0C then [backslash, CHR ''f'']
      else if c = CHR 0x0A then [backslash, CHR ''n'']
      else if c = CHR 0x0D then [backslash, CHR ''r'']
      else if c = CHR 0x09 then [backslash, CHR ''t'']
      else [backslash, CHR ''u'', CHR ''0'', CHR ''0'', hex (byte c div 16), hex (byte c mod 16)])"

function appendString_body :: "string \<Rightarrow> string" where
  "appendString_body [] = []"
| "appendString_body (c # s) =
     (if byte c < 0x80 then
        (if htmlSafe c then c # appendString_body s
         else escape_ascii c @ appendString_body s)
      else
        (case DecodeRune (c # s) of (r, n) \<Rightarrow>
           if r = RuneError \<and> n = 1 then
             backslash # ''ufffd'' @ appendString_body (drop n (c # s))
           else if r = 0x2028 \<or> r = 0x2029 then
             backslash # ''u202'' @ hex (r mod 16) # appendString_body (drop n (c # s))
           else take n (c # s) @ appendString_body (drop n (c # s))))"
  by pat_completeness auto

termination
  by (relation "measure length") (auto dest: DecodeRune_pos)

definition appendString :: "string \<Rightarrow> string" where
  "appendString s = dquote # appendString_body s @ [dquote]"

subsection \<open>Reading a string: the scanner and \<open>unquote\<close>\<close>

text \<open>
  \<open>scan_string\<close> is the scanner inside a string literal, after the opening quote: it
  accepts the escapes of JSON and every byte from 0x20 on, and returns the body of the
  literal with the input after the closing quote. \<open>unquote\<close> turns the body into the bytes
  of the Go string: escapes are resolved, \<open>\uXXXX\<close> pairs of surrogates are joined, a lone
  surrogate and every ill-formed byte become U+FFFD.
\<close>

definition is_hex :: "char \<Rightarrow> bool" where
  "is_hex c \<longleftrightarrow> hexval c \<noteq> None"

fun scan_string :: "string \<Rightarrow> (string \<times> string) option" where
  "scan_string [] = None"
| "scan_string (c # s) =
     (if c = dquote then Some ([], s)
      else if c = backslash then
        (case s of
           [] \<Rightarrow> None
         | e # s' \<Rightarrow>
             if e \<in> set ''bfnrt/'' \<or> e = backslash \<or> e = dquote then
               map_option (\<lambda>(b, r). (c # e # b, r)) (scan_string s')
             else if e = CHR ''u'' then
               (if 4 \<le> length s' \<and> list_all is_hex (take 4 s') then
                  map_option (\<lambda>(b, r). (c # e # take 4 s' @ b, r)) (scan_string (drop 4 s'))
                else None)
             else None)
      else if byte c < 0x20 then None
      else map_option (\<lambda>(b, r). (c # b, r)) (scan_string s))"

definition getu4 :: "string \<Rightarrow> nat option" where
  "getu4 s =
     (if length s < 6 \<or> s ! 0 \<noteq> backslash \<or> s ! 1 \<noteq> CHR ''u'' then None
      else case (hexval (s ! 2), hexval (s ! 3), hexval (s ! 4), hexval (s ! 5)) of
             (Some a, Some b, Some c, Some d) \<Rightarrow> Some (((a * 16 + b) * 16 + c) * 16 + d)
           | _ \<Rightarrow> None)"

definition IsSurrogate :: "nat \<Rightarrow> bool" where
  "IsSurrogate r \<longleftrightarrow> 0xD800 \<le> r \<and> r < 0xE000"

definition utf16_DecodeRune :: "nat \<Rightarrow> nat option \<Rightarrow> nat" where
  "utf16_DecodeRune r1 r2 =
     (case r2 of
        Some r2' \<Rightarrow>
          if 0xD800 \<le> r1 \<and> r1 < 0xDC00 \<and> 0xDC00 \<le> r2' \<and> r2' < 0xE000
          then (r1 - 0xD800) * 1024 + (r2' - 0xDC00) + 0x10000
          else RuneError
      | None \<Rightarrow> RuneError)"

function unquote :: "string \<Rightarrow> string option" where
  "unquote [] = Some []"
| "unquote (c # s) =
     (if c = backslash then
        (case s of
           [] \<Rightarrow> None
         | e # s' \<Rightarrow>
             if e = dquote \<or> e = backslash \<or> e = CHR ''/'' \<or> e = CHR 0x27 then
               map_option ((#) e) (unquote s')
             else if e = CHR ''b'' then map_option ((#) (CHR 0x08)) (unquote s')
             else if e = CHR ''f'' then map_option ((#) (CHR 0x0C)) (unquote s')
             else if e = CHR ''n'' then map_option ((#) (CHR 0x0A)) (unquote s')
             else if e = CHR ''r'' then map_option ((#) (CHR 0x0D)) (unquote s')
             else if e = CHR ''t'' then map_option ((#) (CHR 0x09)) (unquote s')
             else if e = CHR ''u'' then
               (case getu4 (c # s) of
                  None \<Rightarrow> None
                | Some rr \<Rightarrow>
                    if IsSurrogate rr then
                      (let dec = utf16_DecodeRune rr (getu4 (drop 4 s')) in
                       if dec \<noteq> RuneError then
                         map_option ((@) (EncodeRune dec)) (unquote (drop 6 (drop 4 s')))
                       else map_option ((@) (EncodeRune RuneError)) (unquote (drop 4 s')))
                    else map_option ((@) (EncodeRune rr)) (unquote (drop 4 s')))
             else None)
      else if c = dquote \<or> byte c < 0x20 then None
      else if byte c < 0x80 then map_option ((#) c) (unquote s)
      else
        (case DecodeRune (c # s) of (rr, n) \<Rightarrow>
           map_option ((@) (EncodeRune rr)) (unquote (drop n (c # s)))))"
  by pat_completeness auto

termination
  by (relation "measure length") (auto dest: DecodeRune_pos)

text \<open>
  A string is valid UTF-8 when decoding it rune by rune never meets an ill-formed sequence
  (what \<open>utf8.ValidString\<close> decides).
\<close>

function valid_utf8 :: "string \<Rightarrow> bool" where
  "valid_utf8 [] = True"
| "valid_utf8 (c # s) =
     (if byte c < 0x80 then valid_utf8 s
      else (case DecodeRune (c # s) of (r, n) \<Rightarrow>
              \<not> (r = RuneError \<and> n = 1) \<and> valid_utf8 (drop n (c # s))))"
  by pat_completeness auto

termination
  by (relation "measure length") (auto dest: DecodeRune_pos)

subsection \<open>Integers and number literals\<close>

text \<open>
  \<open>FormatInt\<close> writes an integer in base 10 as \<open>strconv.AppendInt\<close> does, \<open>ParseInt\<close>
  is \<open>strconv.ParseInt(s, 10, 64)\<close>: an optional sign and decimal digits only, within the
  range of a signed 64-bit integer. \<open>lex_number\<close> is the scanner on a number literal: an
  optional minus sign, an integer part without a leading zero, an optional fraction and an
  optional exponent; it returns the literal and the input after it.
\<close>

definition is_digit :: "char \<Rightarrow> bool" where
  "is_digit c \<longleftrightarrow> 48 \<le> byte c \<and> byte c \<le> 57"

definition digit_char :: "nat \<Rightarrow> char" where
  "digit_char n = char_of (48 + n)"

function FormatUint :: "nat \<Rightarrow> string" where
  "FormatUint n = (if n < 10 then [digit_char n] else FormatUint (n div 10) @ [digit_char (n mod 10)])"
  by pat_completeness auto

termination
  by (relation "measure id") auto

declare FormatUint.simps [simp del]

definition FormatInt :: "int \<Rightarrow> string" where
  "FormatInt i = (if i < 0 then CHR ''-'' # FormatUint (nat (- i)) else FormatUint (nat i))"

definition digits_val :: "string \<Rightarrow> nat" where
  "digits_val ds = foldl (\<lambda>a c. 10 * a + (byte c - 48)) 0 ds"

definition ParseInt :: "string \<Rightarrow> int option" where
  "ParseInt s =
     (case s of
        [] \<Rightarrow> None
      | c # t \<Rightarrow>
          let neg = (c = CHR ''-'');
              ds = (if c = CHR ''-'' \<or> c = CHR ''+'' then t else s)
          in if ds = [] \<or> \<not> list_all is_digit ds then None
             else let i = (if neg then - int (digits_val ds) else int (digits_val ds))
                  in if - (2 ^ 63) \<le> i \<and> i < 2 ^ 63 then Some i else None)"

definition lex_exp :: "string \<Rightarrow> string \<Rightarrow> (string \<times> string) option" where
  "lex_exp lit s =
     (case s of
        [] \<Rightarrow> Some (lit, s)
      | c # t \<Rightarrow>
          if c = CHR ''e'' \<or> c = CHR ''E'' then
            (let sg = (case t of [] \<Rightarrow> [] | x # t2 \<Rightarrow> if x = CHR ''+'' \<or> x = CHR ''-'' then [x] else []);
                 t' = drop (length sg) t;
                 ds = takeWhile is_digit t'
             in if ds = [] then None else Some (lit @ c # sg @ ds, dropWhile is_digit t'))
          else Some (lit, s))"

definition lex_frac :: "string \<Rightarrow> string \<Rightarrow> (string \<times> string) option" where
  "lex_frac lit s =
     (case s of
        [] \<Rightarrow> lex_exp lit s
      | c # t \<Rightarrow>
          if c = CHR ''.'' then
            (let ds = takeWhile is_digit t
             in if ds = [] then None else lex_exp (lit @ c # ds) (dropWhile is_digit t))
          else lex_exp lit s)"

definition lex_number :: "string \<Rightarrow> (string \<times> string) option" where
  "lex_number s =
     (let sign = (case s of [] \<Rightarrow> [] | c # t \<Rightarrow> if c = CHR ''-'' then [c] else []);
          s1 = drop (length sign) s
      in case s1 of
           [] \<Rightarrow> None
         | d # s2 \<Rightarrow>
             if d = CHR ''0'' then lex_frac (sign @ [d]) s2
             else if is_digit d then
               lex_frac (sign @ d # takeWhile is_digit s2) (dropWhile is_digit s2)
             else None)"

text \<open>A literal is never empty: the scanner always consumes input.\<close>

lemma lex_exp_len: "lex_exp lit s = Some (l, r) \<Longrightarrow> length r \<le> length s"
  by (auto simp add: lex_exp_def Let_def split: list.splits if_splits
      intro: order_trans [OF length_dropWhile_le])

lemma lex_frac_len: "lex_frac lit s = Some (l, r) \<Longrightarrow> length r \<le> length s"
  by (auto simp add: lex_frac_def Let_def split: list.splits if_splits
      dest!: lex_exp_len intro: order_trans [OF _ length_dropWhile_le] le_SucI)

lemma lex_number_len: "lex_number s = Some (l, r) \<Longrightarrow> length r < length s"
  by (auto simp add: lex_number_def Let_def split: list.splits if_splits
      dest!: lex_frac_len intro: order_trans [OF _ length_dropWhile_le] le_SucI le_imp_less_Suc)

lemma scan_string_len: "scan_string s = Some (b, r) \<Longrightarrow> length r < length s"
proof (induction s arbitrary: b r rule: scan_string.induct)
  case 1
  then show ?case by simp
next
  case (2 c s)
  then show ?case
    by (auto simp add: scan_string.simps(2) split: if_splits list.splits) fastforce+
qed

subsection \<open>Tokens and values\<close>

text \<open>
  The JSON grammar in two steps: the input is cut into tokens (white space is a blank, a
  tab, a carriage return or a newline), and the tokens are parsed into a value. Arrays and
  objects nest up to \<open>maxNestingDepth\<close> levels, as in the scanner. After a comma the parser
  goes on only when the value before it consumed input; \<open>parse_value\<close> always does, the test
  is there for the termination proof alone.
\<close>

datatype token =
    TLBrace | TRBrace | TLBracket | TRBracket | TColon | TComma
  | TString string | TNumber string | TTrue | TFalse | TNull

definition isSpace :: "char \<Rightarrow> bool" where
  "isSpace c \<longleftrightarrow> c = CHR '' '' \<or> c = CHR 0x09 \<or> c = CHR 0x0D \<or> c = CHR 0x0A"

function lex_tokens :: "string \<Rightarrow> token list option" where
  "lex_tokens [] = Some []"
| "lex_tokens (c # s) =
     (if isSpace c then lex_tokens s
      else if c = CHR ''{'' then map_option ((#) TLBrace) (lex_tokens s)
      else if c = CHR ''}'' then map_option ((#) TRBrace) (lex_tokens s)
      else if c = CHR ''['' then map_option ((#) TLBracket) (lex_tokens s)
      else if c = CHR '']'' then map_option ((#) TRBracket) (lex_tokens s)
      else if c = CHR '':'' then map_option ((#) TColon) (lex_tokens s)
      else if c = CHR '','' then map_option ((#) TComma) (lex_tokens s)
      else if c = dquote then
        (case scan_string s of
           None \<Rightarrow> None
         | Some (raw, rest) \<Rightarrow>
             (case unquote raw of
                None \<Rightarrow> None
              | Some str \<Rightarrow> map_option ((#) (TString str)) (lex_tokens rest)))
      else if c = CHR ''-'' \<or> is_digit c then
        (case lex_number (c # s) of
           None \<Rightarrow> None
         | Some (lit, rest) \<Rightarrow> map_option ((#) (TNumber lit)) (lex_tokens rest))
      else if take 4 (c # s) = ''true'' then map_option ((#) TTrue) (lex_tokens (drop 4 (c # s)))
      else if take 5 (c # s) = ''false'' then map_option ((#) TFalse) (lex_tokens (drop 5 (c # s)))
      else if take 4 (c # s) = ''null'' then map_option ((#) TNull) (lex_tokens (drop 4 (c # s)))
      else None)"
  by pat_completeness auto

termination
proof (relation "measure length", goal_cases)
  case (9 c s x2 x y x2a)
  then show ?case using scan_string_len [of s x y] by simp
next
  case (10 c s x2 x y)
  then show ?case using lex_number_len [of "c # s" x y] by simp
qed simp_all

datatype json =
    JNull | JBool bool | JNumber string | JString string
  | JArray "json list" | JObject "(string \<times> json) list"

function parse_value :: "nat \<Rightarrow> token list \<Rightarrow> (json \<times> token list) option"
  and parse_elems :: "nat \<Rightarrow> token list \<Rightarrow> (json list \<times> token list) option"
  and parse_members :: "nat \<Rightarrow> token list \<Rightarrow> ((string \<times> json) list \<times> token list) option"
where
  "parse_value d [] = None"
| "parse_value d (t # ts) =
     (case t of
        TNull \<Rightarrow> Some (JNull, ts)
      | TTrue \<Rightarrow> Some (JBool True, ts)
      | TFalse \<Rightarrow> Some (JBool False, ts)
      | TNumber lit \<Rightarrow> Some (JNumber lit, ts)
      | TString str \<Rightarrow> Some (JString str, ts)
      | TLBracket \<Rightarrow>
          (if d = 0 then None
           else if ts \<noteq> [] \<and> hd ts = TRBracket then Some (JArray [], tl ts)
           else map_option (\<lambda>(vs, r). (JArray vs, r)) (parse_elems (d - 1) ts))
      | TLBrace \<Rightarrow>
          (if d = 0 then None
           else if ts \<noteq> [] \<and> hd ts = TRBrace then Some (JObject [], tl ts)
           else map_option (\<lambda>(ms, r). (JObject ms, r)) (parse_members (d - 1) ts))
      | _ \<Rightarrow> None)"
| "parse_elems d ts =
     (case parse_value d ts of
        None \<Rightarrow> None
      | Some (v, r) \<Rightarrow>
          (case r of
             [] \<Rightarrow> None
           | t # r' \<Rightarrow>
               if t = TRBracket then Some ([v], r')
               else if t = TComma \<and> length r' < length ts then
                 map_option (\<lambda>(vs, r''). (v # vs, r'')) (parse_elems d r')
               else None))"
| "parse_members d ts =
     (case ts of
        TString k # TColon # ts' \<Rightarrow>
          (case parse_value d ts' of
             None \<Rightarrow> None
           | Some (v, r) \<Rightarrow>
               (case r of
                  [] \<Rightarrow> None
                | t # r' \<Rightarrow>
                    if t = TRBrace then Some ([(k, v)], r')
                    else if t = TComma \<and> length r' < length ts then
                      map_option (\<lambda>(ms, r''). ((k, v) # ms, r'')) (parse_members d r')
                    else None))
      | _ \<Rightarrow> None)"
  by pat_completeness auto

termination
  by (relation "inv_image (less_than <*lex*> less_than <*lex*> less_than)
        (\<lambda>x. case x of
                Inl (d, ts) \<Rightarrow> (d, length ts, 0::nat)
              | Inr (Inl (d, ts)) \<Rightarrow> (d, length ts, 1)
              | Inr (Inr (d, ts)) \<Rightarrow> (d, length ts, 1))")
     auto

definition maxNestingDepth :: nat where
  "maxNestingDepth = 10000"

definition parse_json :: "string \<Rightarrow> json option" where
  "parse_json s =
     (case lex_tokens s of
        None \<Rightarrow> None
      | Some ts \<Rightarrow>
          (case parse_value maxNestingDepth ts of
             Some (v, []) \<Rightarrow> Some v
           | _ \<Rightarrow> None))"

subsection \<open>Decoding into \<open>restErr\<close>\<close>

text \<open>
  A member of the object is stored into the field whose name equals its key, or else whose
  name equals it under Unicode simple case folding (\<open>foldName\<close>). Of the runes outside
  ASCII only U+017F and U+212A fold to ASCII letters (S and K); every other rune folds to
  a rune outside ASCII and can match none of the three field names, so \<open>foldRune\<close> leaves it
  as it is.
\<close>

definition foldRune :: "nat \<Rightarrow> nat" where
  "foldRune r = (if r = 0x17F then 0x53 else if r = 0x212A then 0x4B else r)"

function foldName :: "string \<Rightarrow> string" where
  "foldName [] = []"
| "foldName (c # s) =
     (if byte c < 0x80 then
        (if byte CHR ''a'' \<le> byte c \<and> byte c \<le> byte CHR ''z'' then char_of (byte c - 32) else c)
          # foldName s
      else
        (case DecodeRune (c # s) of (r, n) \<Rightarrow>
           EncodeRune (foldRune r) @ foldName (drop n (c # s))))"
  by pat_completeness auto

termination
  by (relation "measure length") (auto dest: DecodeRune_pos)

datatype field = Field_error | Field_status_code | Field_message

definition find_field :: "string \<Rightarrow> field option" where
  "find_field key =
     (if key = ''error'' then Some Field_error
      else if key = ''status_code'' then Some Field_status_code
      else if key = ''message'' then Some Field_message
      else if foldName key = ''ERROR'' then Some Field_error
      else if foldName key = ''STATUS_CODE'' then Some Field_status_code
      else if foldName key = ''MESSAGE'' then Some Field_message
      else None)"

text \<open>
  \<open>null\<close> leaves a field as it is. A boolean goes into \<open>ErrError\<close>, a number literal that
  \<open>ParseInt\<close> accepts into \<open>ErrStatusCode\<close>, a string into \<open>ErrMessage\<close>; any other pairing
  is an \<open>UnmarshalTypeError\<close>. Members that name no field are skipped. The decoder goes on
  after a type error and reports the first one at the end; since \<open>NewRestErrorFromBytes\<close>
  drops the struct on any error, \<open>decode_object\<close> stops at the first.
\<close>

definition UnmarshalTypeError :: error where
  "UnmarshalTypeError = JsonError ''json: cannot unmarshal value into Go value''"

definition SyntaxError :: error where
  "SyntaxError = JsonError ''json: invalid character or unexpected end of JSON input''"

definition store_field :: "field \<Rightarrow> json \<Rightarrow> restErr \<Rightarrow> error + restErr" where
  "store_field f v e =
     (case v of
        JNull \<Rightarrow> Inr e
      | JBool b \<Rightarrow> (if f = Field_error then Inr (e\<lparr>ErrError := b\<rparr>) else Inl UnmarshalTypeError)
      | JNumber lit \<Rightarrow>
          (if f = Field_status_code then
             (case ParseInt lit of
                None \<Rightarrow> Inl UnmarshalTypeError
              | Some n \<Rightarrow> Inr (e\<lparr>ErrStatusCode := word_of_int n\<rparr>))
           else Inl UnmarshalTypeError)
      | JString str \<Rightarrow>
          (if f = Field_message then Inr (e\<lparr>ErrMessage := str\<rparr>) else Inl UnmarshalTypeError)
      | JArray vs \<Rightarrow> Inl UnmarshalTypeError
      | JObject ms \<Rightarrow> Inl UnmarshalTypeError)"

fun decode_object :: "(string \<times> json) list \<Rightarrow> restErr \<Rightarrow> error + restErr" where
  "decode_object [] e = Inr e"
| "decode_object ((key, v) # ms) e =
     (case find_field key of
        None \<Rightarrow> decode_object ms e
      | Some f \<Rightarrow>
          (case store_field f v e of
             Inl err \<Rightarrow> Inl err
           | Inr e' \<Rightarrow> decode_object ms e'))"

text \<open>
  \<open>json.Unmarshal(bytes, &apiErr)\<close>: a syntax error for input that is not one JSON value;
  \<open>null\<close> changes nothing; an object is decoded member by member; any other value is a type
  error.
\<close>

definition json_Unmarshal :: "string \<Rightarrow> restErr \<Rightarrow> error + restErr" where
  "json_Unmarshal data e =
     (case parse_json data of
        None \<Rightarrow> Inl SyntaxError
      | Some JNull \<Rightarrow> Inr e
      | Some (JObject ms) \<Rightarrow> decode_object ms e
      | Some _ \<Rightarrow> Inl UnmarshalTypeError)"

text \<open>\<open>var apiErr restErr\<close> is the zero value; the result \<open>(RestErr, error)\<close> is a pair of options.\<close>

definition zero_restErr :: restErr where
  "zero_restErr = \<lparr>ErrError = False, ErrStatusCode = 0, ErrMessage = []\<rparr>"

definition NewRestErrorFromBytes :: "string \<Rightarrow> restErr option \<times> error option" where
  "NewRestErrorFromBytes bytes =
     (case json_Unmarshal bytes zero_restErr of
        Inl err \<Rightarrow> (None, Some (ErrorsNew ''invalid error json response''))
      | Inr apiErr \<Rightarrow> (Some apiErr, None))"

text \<open>\<open>json.Marshal\<close> of a \<open>restErr\<close>: the three fields in the order of the struct.\<close>

definition json_key :: "string \<Rightarrow> string" where
  "json_key name = dquote # name @ [dquote, CHR '':'']"


subsection \<open>The payloads the decoder accepts\<close>

text \<open>
  A JSON value has the shape of a \<open>restErr\<close> when it is \<open>null\<close>, or an object in which
  every member that names a field holds \<open>null\<close> or a value of that field's type.
  \<open>names_field f ms\<close> says that some member of \<open>ms\<close> names the field \<open>f\<close>.
\<close>

definition field_accepts :: "field \<Rightarrow> json \<Rightarrow> bool" where
  "field_accepts f v =
     (case v of
        JNull \<Rightarrow> True
      | JBool b \<Rightarrow> f = Field_error
      | JNumber lit \<Rightarrow> f = Field_status_code \<and> ParseInt lit \<noteq> None
      | JString str \<Rightarrow> f = Field_message
      | JArray vs \<Rightarrow> False
      | JObject ms \<Rightarrow> False)"

definition member_ok :: "string \<times> json \<Rightarrow> bool" where
  "member_ok m = (case find_field (fst m) of None \<Rightarrow> True | Some f \<Rightarrow> field_accepts f (snd m))"


definition names_field :: "field \<Rightarrow> (string \<times> json) list \<Rightarrow> bool" where
  "names_field f ms = list_ex (\<lambda>m. find_field (fst m) = Some f) ms"

section \<open>Concrete surroundings for the closed instances\<close>

definition demo_env :: "(nat, nat) env" where
  "demo_env = \<lparr>json_Marshal = (\<lambda>v. if v = 0 then Inl (JsonError ''unsupported type'') else Inr ''1''),
               request_check = (\<lambda>m u. if u = [] then Some (HttpError ''empty url'') else None),
               values_Encode = (\<lambda>d. concat (map fst d)),
               client_Do = (\<lambda>r. (Some 200, None))\<rparr>"

definition demo_mock :: "nat Mock" where
  "demo_mock = \<lparr>URL = ''http://x/y'', HTTPMethod = ''POST'', Response = Some 200, Err = None\<rparr>"

definition demo_logger :: "zap_level \<Rightarrow> nat zap_logger" where
  "demo_logger lvl = \<lparr>zl_level = lvl, zl_outputs = [''stdout''], zl_errors = [''stderr''], zl_fields = []\<rparr>"



text \<open>
  The payload \<open>{"error":"yes"}\<close>, a JSON object whose member \<open>error\<close> is a string, and
  the payload \<open>{"Status_Code":12,"x":[1,{}]}\<close>, an object with one known member under
  another spelling and one member that names no field.
\<close>

definition wrong_type_payload :: string where
  "wrong_type_payload = ''{'' @ json_key ''error'' @ appendString ''yes'' @ ''}''"

definition lenient_payload :: string where
  "lenient_payload = ''{'' @ json_key ''Status_Code'' @ ''12,'' @ json_key ''x'' @ ''[1,{}]}''"

section \<open>Facts about the JSON form\<close>

subsection \<open>Decoding a well-formed UTF-8 sequence and encoding it again\<close>

lemma divmod_base:
  fixes q c k :: nat
  assumes "c < k"
  shows "(q * k + c) div k = q" and "(q * k + c) mod k = c"
  using assms by simp_all

lemma utf8_two:
  fixes a b :: nat
  assumes "0xC2 \<le> a" "a \<le> 0xDF" "0x80 \<le> b" "b \<le> 0xBF"
  defines "r \<equiv> (a mod 32) * 64 + b mod 64"
  shows "0x80 \<le> r \<and> r \<le> 0x7FF \<and> 0xC0 + r div 64 = a \<and> 0x80 + r mod 64 = b"
proof -
  define a' where "a' = a - 0xC0"
  define b' where "b' = b - 0x80"
  have a': "a = 0xC0 + a'" using assms(1) by (simp add: a'_def)
  have b': "b = 0x80 + b'" using assms(3) by (simp add: b'_def)
  have ba: "2 \<le> a'" "a' < 32" and bb: "b' < 64" using assms(1-4) a' b' by simp_all
  have am: "a mod 32 = a'" using ba divmod_base(2) [of "a'" 32 6] by (simp add: a')
  have bm: "b mod 64 = b'" using bb divmod_base(2) [of "b'" 64 2] by (simp add: b')
  have r: "r = a' * 64 + b'" by (simp add: r_def am bm)
  have "r div 64 = a'" "r mod 64 = b'" unfolding r using bb divmod_base [of b' 64 a'] by simp_all
  moreover have "0x80 \<le> r" "r \<le> 0x7FF" unfolding r using ba bb by simp_all
  ultimately show ?thesis using a' b' by simp
qed

lemma utf8_three:
  fixes a b c :: nat
  assumes "0xE0 \<le> a" "a \<le> 0xEF" "0x80 \<le> b" "b \<le> 0xBF" "0x80 \<le> c" "c \<le> 0xBF"
    and "a = 0xE0 \<longrightarrow> 0xA0 \<le> b" and "a = 0xED \<longrightarrow> b \<le> 0x9F"
  defines "r \<equiv> (a mod 16) * 4096 + (b mod 64) * 64 + c mod 64"
  shows "0x800 \<le> r \<and> r \<le> 0xFFFF \<and> \<not> (0xD800 \<le> r \<and> r \<le> 0xDFFF)
       \<and> 0xE0 + r div 4096 = a \<and> 0x80 + (r div 64) mod 64 = b \<and> 0x80 + r mod 64 = c"
proof -
  define a' where "a' = a - 0xE0"
  define b' where "b' = b - 0x80"
  define c' where "c' = c - 0x80"
  have a': "a = 0xE0 + a'" using assms(1) by (simp add: a'_def)
  have b': "b = 0x80 + b'" using assms(3) by (simp add: b'_def)
  have c': "c = 0x80 + c'" using assms(5) by (simp add: c'_def)
  have ba: "a' < 16" and bb: "b' < 64" and bc: "c' < 64" using assms(1-6) a' b' c' by simp_all
  have lo: "a' = 0 \<longrightarrow> 32 \<le> b'" using assms(7) a' b' by simp
  have hi: "a' = 13 \<longrightarrow> b' \<le> 31" using assms(8) a' b' by simp
  have am: "a mod 16 = a'" using ba divmod_base(2) [of "a'" 16 14] by (simp add: a')
  have bm: "b mod 64 = b'" using bb divmod_base(2) [of "b'" 64 2] by (simp add: b')
  have cm: "c mod 64 = c'" using bc divmod_base(2) [of "c'" 64 2] by (simp add: c')
  have r: "r = (a' * 64 + b') * 64 + c'" by (simp add: r_def am bm cm)
  have d1: "r div 64 = a' * 64 + b'" and m1: "r mod 64 = c'"
    unfolding r using bc divmod_base [of c' 64 "a' * 64 + b'"] by simp_all
  have d2: "(a' * 64 + b') div 64 = a'" and m2: "(a' * 64 + b') mod 64 = b'"
    using bb divmod_base [of b' 64 a'] by simp_all
  have "r div 4096 = r div 64 div 64" by (simp add: div_mult2_eq [symmetric])
  then have d3: "r div 4096 = a'" by (simp add: d1 d2)
  have r': "r = 4096 * a' + 64 * b' + c'" unfolding r by simp
  have rng: "0x800 \<le> r" "r \<le> 0xFFFF" using ba bb bc lo unfolding r' by auto
  have sur: "\<not> (0xD800 \<le> r \<and> r \<le> 0xDFFF)"
  proof -
    consider "a' \<le> 12" | "a' = 13" | "14 \<le> a'" by linarith
    then show ?thesis
    proof cases
      case 1 then show ?thesis using bb bc unfolding r' by simp
    next
      case 2 then show ?thesis using hi bc unfolding r' by simp
    next
      case 3 then show ?thesis unfolding r' by simp
    qed
  qed
  show ?thesis using rng sur d3 d1 m2 m1 a' b' c' by simp
qed

lemma utf8_four:
  fixes a b c d :: nat
  assumes "0xF0 \<le> a" "a \<le> 0xF4" "0x80 \<le> b" "b \<le> 0xBF" "0x80 \<le> c" "c \<le> 0xBF"
    and "0x80 \<le> d" "d \<le> 0xBF"
    and "a = 0xF0 \<longrightarrow> 0x90 \<le> b" and "a = 0xF4 \<longrightarrow> b \<le> 0x8F"
  defines "r \<equiv> (a mod 8) * 262144 + (b mod 64) * 4096 + (c mod 64) * 64 + d mod 64"
  shows "0xFFFF < r \<and> r \<le> 0x10FFFF
       \<and> 0xF0 + r div 262144 = a \<and> 0x80 + (r div 4096) mod 64 = b
       \<and> 0x80 + (r div 64) mod 64 = c \<and> 0x80 + r mod 64 = d"
proof -
  define a' where "a' = a - 0xF0"
  define b' where "b' = b - 0x80"
  define c' where "c' = c - 0x80"
  define d' where "d' = d - 0x80"
  have a': "a = 0xF0 + a'" using assms(1) by (simp add: a'_def)
  have b': "b = 0x80 + b'" using assms(3) by (simp add: b'_def)
  have c': "c = 0x80 + c'" using assms(5) by (simp add: c'_def)
  have d': "d = 0x80 + d'" using assms(7) by (simp add: d'_def)
  have ba: "a' \<le> 4" and bb: "b' < 64" and bc: "c' < 64" and bd: "d' < 64"
    using assms(1-8) a' b' c' d' by simp_all
  have lo: "a' = 0 \<longrightarrow> 16 \<le> b'" using assms(9) a' b' by simp
  have hi: "a' = 4 \<longrightarrow> b' \<le> 15" using assms(10) a' b' by simp
  have am: "a mod 8 = a'" using ba divmod_base(2) [of "a'" 8 30] by (simp add: a')
  have bm: "b mod 64 = b'" using bb divmod_base(2) [of "b'" 64 2] by (simp add: b')
  have cm: "c mod 64 = c'" using bc divmod_base(2) [of "c'" 64 2] by (simp add: c')
  have dm: "d mod 64 = d'" using bd divmod_base(2) [of "d'" 64 2] by (simp add: d')
  have r: "r = ((a' * 64 + b') * 64 + c') * 64 + d'" by (simp add: r_def am bm cm dm)
  have d1: "r div 64 = (a' * 64 + b') * 64 + c'" and m1: "r mod 64 = d'"
    unfolding r using bd divmod_base [of d' 64 "(a' * 64 + b') * 64 + c'"] by simp_all
  have d2: "((a' * 64 + b') * 64 + c') div 64 = a' * 64 + b'"
    and m2: "((a' * 64 + b') * 64 + c') mod 64 = c'"
    using bc divmod_base [of c' 64 "a' * 64 + b'"] by simp_all
  have d3: "(a' * 64 + b') div 64 = a'" and m3: "(a' * 64 + b') mod 64 = b'"
    using bb divmod_base [of b' 64 a'] by simp_all
  have "r div 4096 = r div 64 div 64" by (simp add: div_mult2_eq [symmetric])
  then have e2: "r div 4096 = a' * 64 + b'" by (simp only: d1 d2)
  have "r div 262144 = r div 4096 div 64" by (simp add: div_mult2_eq [symmetric])
  then have e3: "r div 262144 = a'" by (simp only: e2 d3)
  have r': "r = 262144 * a' + 4096 * b' + 64 * c' + d'" unfolding r by simp
  have rlo: "0xFFFF < r" using lo unfolding r' by (cases "a' = 0") auto
  have rhi: "r \<le> 0x10FFFF"
  proof (cases "a' = 4")
    case True then show ?thesis using hi bc bd unfolding r' by simp
  next
    case False then have "a' \<le> 3" using ba by simp
    then show ?thesis using bb bc bd unfolding r' by simp
  qed
  show ?thesis using rlo rhi e3 e2 m3 d1 m2 m1 a' b' c' d' by simp
qed

lemma char_of_byte [simp]: "char_of (byte c) = c"
  by (simp add: byte_def)

lemma byte_less_256 [simp]: "byte c < 256"
  by (simp add: byte_def)

lemma first_byte_cases:
  assumes "first_byte a = Some (sz, lo, hi)"
  shows "(sz = 2 \<and> 0xC2 \<le> a \<and> a \<le> 0xDF \<and> lo = 0x80 \<and> hi = 0xBF)
       \<or> (sz = 3 \<and> 0xE0 \<le> a \<and> a \<le> 0xEF \<and> 0x80 \<le> lo \<and> hi \<le> 0xBF
            \<and> (a = 0xE0 \<longrightarrow> lo = 0xA0) \<and> (a = 0xED \<longrightarrow> hi = 0x9F))
       \<or> (sz = 4 \<and> 0xF0 \<le> a \<and> a \<le> 0xF4 \<and> 0x80 \<le> lo \<and> hi \<le> 0xBF
            \<and> (a = 0xF0 \<longrightarrow> lo = 0x90) \<and> (a = 0xF4 \<longrightarrow> hi = 0x8F))"
  using assms unfolding first_byte_def by (simp split: if_splits)

lemma DecodeRune_Nil [simp]: "DecodeRune [] = (RuneError, 0)"
  by (simp add: DecodeRune_def)

lemma DecodeRune_ascii: "byte c < 0x80 \<Longrightarrow> DecodeRune (c # p) = (byte c, 1)"
  by (simp add: DecodeRune_def)

lemma DecodeRune_bad_first:
  "\<not> byte c < 0x80 \<Longrightarrow> first_byte (byte c) = None \<Longrightarrow> DecodeRune (c # p) = (RuneError, 1)"
  by (simp add: DecodeRune_def)

lemma DecodeRune_short:
  "\<not> byte c < 0x80 \<Longrightarrow> first_byte (byte c) = Some (sz, lo, hi) \<Longrightarrow> Suc (length p) < sz
     \<Longrightarrow> DecodeRune (c # p) = (RuneError, 1)"
  by (simp add: DecodeRune_def)

lemma DecodeRune_two:
  "\<not> byte c < 0x80 \<Longrightarrow> first_byte (byte c) = Some (2, lo, hi) \<Longrightarrow>
   DecodeRune (c # c1 # p) =
     (if byte c1 < lo \<or> hi < byte c1 then (RuneError, 1)
      else ((byte c mod 32) * 64 + byte c1 mod 64, 2))"
  by (simp add: DecodeRune_def)

lemma DecodeRune_three:
  "\<not> byte c < 0x80 \<Longrightarrow> first_byte (byte c) = Some (3, lo, hi) \<Longrightarrow>
   DecodeRune (c # c1 # c2 # p) =
     (if byte c1 < lo \<or> hi < byte c1 then (RuneError, 1)
      else if byte c2 < 0x80 \<or> 0xBF < byte c2 then (RuneError, 1)
      else ((byte c mod 16) * 4096 + (byte c1 mod 64) * 64 + byte c2 mod 64, 3))"
  by (simp add: DecodeRune_def)

lemma DecodeRune_four:
  "\<not> byte c < 0x80 \<Longrightarrow> first_byte (byte c) = Some (4, lo, hi) \<Longrightarrow>
   DecodeRune (c # c1 # c2 # c3 # p) =
     (if byte c1 < lo \<or> hi < byte c1 then (RuneError, 1)
      else if byte c2 < 0x80 \<or> 0xBF < byte c2 then (RuneError, 1)
      else if byte c3 < 0x80 \<or> 0xBF < byte c3 then (RuneError, 1)
      else ((byte c mod 8) * 262144 + (byte c1 mod 64) * 4096 + (byte c2 mod 64) * 64
              + byte c3 mod 64, 4))"
  by (simp add: DecodeRune_def)

lemma DecodeRune_valid:
  assumes dec: "DecodeRune (c # p) = (r, n)"
    and ok: "\<not> (r = RuneError \<and> n = 1)"
    and hi: "\<not> byte c < 0x80"
  shows "2 \<le> n \<and> n \<le> Suc (length p) \<and> 0x80 \<le> r \<and> EncodeRune r = take n (c # p)
       \<and> DecodeRune (take n (c # p) @ q) = (r, n)
       \<and> (\<forall>x \<in> set (take n (c # p)). 0x80 \<le> byte x)"
proof -
  obtain sz lo up where fb: "first_byte (byte c) = Some (sz, lo, up)"
    using DecodeRune_bad_first [OF hi, of p] dec ok by (cases "first_byte (byte c)") auto
  have len: "\<not> Suc (length p) < sz"
    using DecodeRune_short [OF hi fb, of p] dec ok by auto
  from first_byte_cases [OF fb] consider
      (two) "sz = 2" "0xC2 \<le> byte c" "byte c \<le> 0xDF" "lo = 0x80" "up = 0xBF"
    | (three) "sz = 3" "0xE0 \<le> byte c" "byte c \<le> 0xEF" "0x80 \<le> lo" "up \<le> 0xBF"
        "byte c = 0xE0 \<longrightarrow> lo = 0xA0" "byte c = 0xED \<longrightarrow> up = 0x9F"
    | (four) "sz = 4" "0xF0 \<le> byte c" "byte c \<le> 0xF4" "0x80 \<le> lo" "up \<le> 0xBF"
        "byte c = 0xF0 \<longrightarrow> lo = 0x90" "byte c = 0xF4 \<longrightarrow> up = 0x8F"
    by blast
  then show ?thesis
  proof cases
    case two
    from len two(1) obtain c1 p' where p: "p = c1 # p'" by (cases p) auto
    note d = DecodeRune_two [OF hi fb [unfolded two(1)]]
    from dec ok have rng: "\<not> (byte c1 < lo \<or> up < byte c1)"
      and r: "r = (byte c mod 32) * 64 + byte c1 mod 64" and n: "n = 2"
      unfolding p d by (auto split: if_splits)
    from rng two have b1: "0x80 \<le> byte c1" "byte c1 \<le> 0xBF" by simp_all
    note u = utf8_two [OF two(2,3) b1, folded r]
    have enc: "EncodeRune r = [c, c1]"
      using u by (simp add: EncodeRune_def)
    have "DecodeRune (c # c1 # q) = (r, n)"
      unfolding d using rng r n by simp
    then show ?thesis using enc u n p hi b1 by simp
  next
    case three
    from len three(1) obtain c1 c2 p' where p: "p = c1 # c2 # p'"
      by (cases p; cases "tl p") auto
    note d = DecodeRune_three [OF hi fb [unfolded three(1)]]
    from dec ok have rng: "\<not> (byte c1 < lo \<or> up < byte c1)" "\<not> (byte c2 < 0x80 \<or> 0xBF < byte c2)"
      and r: "r = (byte c mod 16) * 4096 + (byte c1 mod 64) * 64 + byte c2 mod 64" and n: "n = 3"
      unfolding p d by (auto split: if_splits)
    from rng three have b1: "0x80 \<le> byte c1" "byte c1 \<le> 0xBF"
      and b2: "0x80 \<le> byte c2" "byte c2 \<le> 0xBF"
      and e0: "byte c = 0xE0 \<longrightarrow> 0xA0 \<le> byte c1" and ed: "byte c = 0xED \<longrightarrow> byte c1 \<le> 0x9F"
      by auto
    note u = utf8_three [OF three(2,3) b1 b2 e0 ed, folded r]
    have enc: "EncodeRune r = [c, c1, c2]"
      using u by (auto simp add: EncodeRune_def)
    have "DecodeRune (c # c1 # c2 # q) = (r, n)"
      unfolding d using rng r n by simp
    then show ?thesis using enc u n p hi b1 b2 by simp
  next
    case four
    from len four(1) obtain c1 c2 c3 p' where p: "p = c1 # c2 # c3 # p'"
      by (cases p; cases "tl p"; cases "tl (tl p)") auto
    note d = DecodeRune_four [OF hi fb [unfolded four(1)]]
    from dec ok have rng: "\<not> (byte c1 < lo \<or> up < byte c1)" "\<not> (byte c2 < 0x80 \<or> 0xBF < byte c2)"
        "\<not> (byte c3 < 0x80 \<or> 0xBF < byte c3)"
      and r: "r = (byte c mod 8) * 262144 + (byte c1 mod 64) * 4096 + (byte c2 mod 64) * 64
                + byte c3 mod 64" and n: "n = 4"
      unfolding p d by (auto split: if_splits)
    from rng four have b1: "0x80 \<le> byte c1" "byte c1 \<le> 0xBF"
      and b2: "0x80 \<le> byte c2" "byte c2 \<le> 0xBF"
      and b3: "0x80 \<le> byte c3" "byte c3 \<le> 0xBF"
      and f0: "byte c = 0xF0 \<longrightarrow> 0x90 \<le> byte c1" and f4: "byte c = 0xF4 \<longrightarrow> byte c1 \<le> 0x8F"
      by auto
    note u = utf8_four [OF four(2,3) b1 b2 b3 f0 f4, folded r]
    have enc: "EncodeRune r = [c, c1, c2, c3]"
      using u by (simp add: EncodeRune_def)
    have "DecodeRune (c # c1 # c2 # c3 # q) = (r, n)"
      unfolding d using rng r n by simp
    then show ?thesis using enc u n p hi b1 b2 b3 by simp
  qed
qed

lemma byte_dquote [simp]: "byte dquote = 0x22"
  by (simp add: byte_def dquote_def)

lemma byte_backslash [simp]: "byte backslash = 0x5C"
  by (simp add: byte_def backslash_def)

lemma byte_eq_iff: "c = d \<longleftrightarrow> byte c = byte d"
  by (simp add: byte_def)

lemma less_16_cases:
  "k < 16 \<Longrightarrow> k = 0 \<or> k = 1 \<or> k = 2 \<or> k = 3 \<or> k = 4 \<or> k = 5 \<or> k = 6 \<or> k = 7 \<or> k = 8
     \<or> k = 9 \<or> k = 10 \<or> k = 11 \<or> k = 12 \<or> k = 13 \<or> k = 14 \<or> k = (15::nat)"
  by arith

lemma hexval_hex: "k < 16 \<Longrightarrow> hexval (hex k) = Some k"
  by (drule less_16_cases) (auto simp add: hex_def hexval_def byte_def)

lemma is_hex_hex: "k < 16 \<Longrightarrow> is_hex (hex k)"
  by (simp add: is_hex_def hexval_hex)

lemma hex_plain: "k < 16 \<Longrightarrow> hex k \<noteq> dquote \<and> hex k \<noteq> backslash \<and> \<not> byte (hex k) < 0x20"
  by (drule less_16_cases) (auto simp add: hex_def byte_def dquote_def backslash_def)

lemma getu4_escape:
  assumes "hexval h1 = Some a" "hexval h2 = Some b" "hexval h3 = Some c" "hexval h4 = Some d"
  shows "getu4 (backslash # CHR ''u'' # h1 # h2 # h3 # h4 # t)
           = Some (((a * 16 + b) * 16 + c) * 16 + d)"
  using assms by (simp add: getu4_def)

lemma hexval_zero: "hexval CHR ''0'' = Some 0" and hexval_two: "hexval CHR ''2'' = Some 2"
  and hexval_f: "hexval CHR ''f'' = Some 15" and hexval_d: "hexval CHR ''d'' = Some 13"
  by (simp_all add: hexval_def byte_def)

lemma append_single: "(@) [c] = (#) c"
  by (simp add: fun_eq_iff)

lemma unquote_safe: "htmlSafe c \<Longrightarrow> unquote (c # t) = map_option ((#) c) (unquote t)"
  by (simp add: htmlSafe_def)

lemma unquote_u00:
  assumes "byte c < 0x80"
  shows "unquote (backslash # CHR ''u'' # CHR ''0'' # CHR ''0'' # hex (byte c div 16)
                    # hex (byte c mod 16) # t) = map_option ((#) c) (unquote t)"
proof -
  have d: "byte c div 16 < 16" using assms by simp
  have g: "getu4 (backslash # CHR ''u'' # CHR ''0'' # CHR ''0'' # hex (byte c div 16)
                    # hex (byte c mod 16) # t) = Some (byte c)"
    using getu4_escape [OF hexval_zero hexval_zero hexval_hex [OF d] hexval_hex [of "byte c mod 16"], of t]
    by simp
  have e: "EncodeRune (byte c) = [c]" using assms by (simp add: EncodeRune_def)
  have s: "\<not> IsSurrogate (byte c)" using assms by (simp add: IsSurrogate_def)
  show ?thesis
    by (subst unquote.simps) (simp add: g [unfolded backslash_def] e s dquote_def backslash_def append_single)
qed

lemma unquote_escape:
  assumes "byte c < 0x80" "\<not> htmlSafe c"
  shows "unquote (escape_ascii c @ t) = map_option ((#) c) (unquote t)"
proof -
  consider "c = backslash" | "c = dquote" | "c = CHR 0x08" | "c = CHR 0x0C" | "c = CHR 0x0A"
    | "c = CHR 0x0D" | "c = CHR 0x09"
    | "c \<noteq> backslash" "c \<noteq> dquote" "c \<noteq> CHR 0x08" "c \<noteq> CHR 0x0C" "c \<noteq> CHR 0x0A"
      "c \<noteq> CHR 0x0D" "c \<noteq> CHR 0x09"
    by blast
  then show ?thesis
  proof cases
    case 8
    then have "escape_ascii c = [backslash, CHR ''u'', CHR ''0'', CHR ''0'', hex (byte c div 16),
        hex (byte c mod 16)]"
      by (simp add: escape_ascii_def)
    then show ?thesis using unquote_u00 [OF assms(1), of t] by simp
  qed (simp_all add: escape_ascii_def dquote_def backslash_def)
qed

lemma high_not_special:
  "\<not> byte c < 0x80 \<Longrightarrow> c \<noteq> backslash \<and> c \<noteq> dquote \<and> \<not> byte c < 0x20"
  by (auto simp add: byte_eq_iff)

lemma unquote_rune:
  assumes dec: "DecodeRune (c # p) = (r, n)"
    and ok: "\<not> (r = RuneError \<and> n = 1)"
    and hi: "\<not> byte c < 0x80"
  shows "unquote (take n (c # p) @ t) = map_option ((@) (take n (c # p))) (unquote t)"
proof -
  note v = DecodeRune_valid [OF dec ok hi, of t]
  from v obtain m where n: "n = Suc m" by (cases n) auto
  have tk: "take n (c # p) @ t = c # (take m p @ t)" by (simp add: n)
  have d: "DecodeRune (c # (take m p @ t)) = (r, n)" using v tk by simp
  have len: "length (take n (c # p)) = n" using v by simp
  have dr: "drop n (c # (take m p @ t)) = t"
    using len tk by (metis append_eq_conv_conj)
  show ?thesis
    unfolding tk
    by (subst unquote.simps) (use v hi high_not_special [OF hi] in \<open>simp add: d dr [unfolded n] n\<close>)
qed

declare unquote.simps(2) [simp del]

lemma unquote_u202:
  assumes "r = 0x2028 \<or> r = 0x2029"
  shows "unquote (backslash # ''u202'' @ hex (r mod 16) # t)
           = map_option ((@) (EncodeRune r)) (unquote t)"
proof -
  have h: "hexval (hex (r mod 16)) = Some (r mod 16)" by (simp add: hexval_hex)
  have g: "getu4 (backslash # CHR ''u'' # CHR ''2'' # CHR ''0'' # CHR ''2'' # hex (r mod 16) # t)
             = Some r"
    using getu4_escape [OF hexval_two hexval_zero hexval_two h, of t] assms by auto
  have s: "\<not> IsSurrogate r" using assms by (auto simp add: IsSurrogate_def)
  show ?thesis
    by (simp add: unquote.simps(2) g [unfolded backslash_def] s dquote_def backslash_def)
qed

lemma unquote_appendString_body:
  "valid_utf8 m \<Longrightarrow> unquote (appendString_body m) = Some m"
proof (induction m rule: appendString_body.induct)
  case 1
  show ?case by simp
next
  case (2 c s)
  show ?case
  proof (cases "byte c < 0x80")
    case True
    with "2.prems" have vs: "valid_utf8 s" by simp
    show ?thesis
    proof (cases "htmlSafe c")
      case safe: True
      from "2.IH"(1) [OF True safe vs] show ?thesis
        using True safe by (simp add: unquote_safe)
    next
      case unsafe: False
      from "2.IH"(2) [OF True unsafe vs] show ?thesis
        using True unsafe by (simp add: unquote_escape)
    qed
  next
    case False
    obtain r n where dec: "DecodeRune (c # s) = (r, n)" by (cases "DecodeRune (c # s)")
    from "2.prems" False dec have ok: "\<not> (r = RuneError \<and> n = 1)"
      and vs: "valid_utf8 (drop n (c # s))" by simp_all
    note v = DecodeRune_valid [OF dec ok False, of "[]"]
    have split: "take n (c # s) @ drop n (c # s) = c # s" by simp
    show ?thesis
    proof (cases "r = 0x2028 \<or> r = 0x2029")
      case sep: True
      from "2.IH"(4) [OF False dec [symmetric] ok sep vs]
      have ih: "unquote (appendString_body (drop n (c # s))) = Some (drop n (c # s))" .
      have "unquote (appendString_body (c # s)) = Some (EncodeRune r @ drop n (c # s))"
        using False dec ok sep ih unquote_u202 [OF sep, of "appendString_body (drop n (c # s))"]
        by (auto simp add: RuneError_def)
      then show ?thesis using v split by simp
    next
      case plain: False
      from "2.IH"(5) [OF False dec [symmetric] ok plain vs]
      have ih: "unquote (appendString_body (drop n (c # s))) = Some (drop n (c # s))" .
      have "unquote (appendString_body (c # s)) = Some (take n (c # s) @ drop n (c # s))"
        using False dec ok plain ih
          unquote_rune [OF dec ok False, of "appendString_body (drop n (c # s))"]
        by auto
      then show ?thesis using split by simp
    qed
  qed
qed

lemma scan_string_safe:
  "htmlSafe c \<Longrightarrow> scan_string (c # t) = map_option (\<lambda>(b, r). (c # b, r)) (scan_string t)"
  by (simp add: htmlSafe_def)

lemma scan_string_high:
  "\<not> byte c < 0x80 \<Longrightarrow> scan_string (c # t) = map_option (\<lambda>(b, r). (c # b, r)) (scan_string t)"
  using high_not_special [of c] by simp

lemma map_option_prefix:
  "map_option (\<lambda>(b, r). (x # b, r)) (map_option (\<lambda>(b, r). (xs @ b, r)) v)
     = map_option (\<lambda>(b, r). ((x # xs) @ b, r)) v"
  by (cases v) auto

lemma scan_string_u:
  assumes "is_hex h1" "is_hex h2" "is_hex h3" "is_hex h4"
  shows "scan_string (backslash # CHR ''u'' # h1 # h2 # h3 # h4 # t)
           = map_option (\<lambda>(b, r). ([backslash, CHR ''u'', h1, h2, h3, h4] @ b, r)) (scan_string t)"
  using assms by (simp add: dquote_def backslash_def)

lemma is_hex_digits: "is_hex CHR ''0''" "is_hex CHR ''2''" "is_hex CHR ''f''" "is_hex CHR ''d''"
  by (simp_all add: is_hex_def hexval_def byte_def)

lemma scan_string_escape:
  assumes "byte c < 0x80" "\<not> htmlSafe c"
  shows "scan_string (escape_ascii c @ t)
           = map_option (\<lambda>(b, r). (escape_ascii c @ b, r)) (scan_string t)"
proof -
  consider "c = backslash" | "c = dquote" | "c = CHR 0x08" | "c = CHR 0x0C" | "c = CHR 0x0A"
    | "c = CHR 0x0D" | "c = CHR 0x09"
    | "c \<noteq> backslash" "c \<noteq> dquote" "c \<noteq> CHR 0x08" "c \<noteq> CHR 0x0C" "c \<noteq> CHR 0x0A"
      "c \<noteq> CHR 0x0D" "c \<noteq> CHR 0x09"
    by blast
  then show ?thesis
  proof cases
    case 8
    then have e: "escape_ascii c = [backslash, CHR ''u'', CHR ''0'', CHR ''0'', hex (byte c div 16),
        hex (byte c mod 16)]"
      by (simp add: escape_ascii_def)
    have d: "byte c div 16 < 16" using assms(1) by simp
    show ?thesis
      unfolding e
      using scan_string_u [OF is_hex_digits(1) is_hex_digits(1) is_hex_hex [OF d]
          is_hex_hex [of "byte c mod 16"], of t]
      by simp
  qed (simp_all add: escape_ascii_def dquote_def backslash_def)
qed

declare scan_string.simps(2) [simp del]

lemma scan_string_high_run:
  "\<forall>x \<in> set xs. 0x80 \<le> byte x \<Longrightarrow>
   scan_string (xs @ t) = map_option (\<lambda>(b, r). (xs @ b, r)) (scan_string t)"
proof (induction xs)
  case Nil
  show ?case by (cases "scan_string t") auto
next
  case (Cons x xs)
  then have "\<not> byte x < 0x80" by simp
  then show ?case using Cons by (simp add: scan_string_high map_option_prefix)
qed

lemma scan_string_appendString_body:
  "scan_string (appendString_body m @ dquote # rest) = Some (appendString_body m, rest)"
proof (induction m rule: appendString_body.induct)
  case 1
  show ?case by (simp add: scan_string.simps(2))
next
  case (2 c s)
  show ?case
  proof (cases "byte c < 0x80")
    case True
    show ?thesis
    proof (cases "htmlSafe c")
      case safe: True
      from "2.IH"(1) [OF True safe] show ?thesis
        using True safe by (simp add: scan_string_safe)
    next
      case unsafe: False
      from "2.IH"(2) [OF True unsafe] show ?thesis
        using True unsafe by (simp add: scan_string_escape)
    qed
  next
    case False
    obtain r n where dec: "DecodeRune (c # s) = (r, n)" by (cases "DecodeRune (c # s)")
    show ?thesis
    proof (cases "r = RuneError \<and> n = 1")
      case bad: True
      from "2.IH"(3) [OF False dec [symmetric] bad]
      have ih: "scan_string (appendString_body (drop n (c # s)) @ dquote # rest)
                  = Some (appendString_body (drop n (c # s)), rest)" .
      show ?thesis
        using False dec bad ih
          scan_string_u [OF is_hex_digits(3) is_hex_digits(3) is_hex_digits(3) is_hex_digits(4),
            of "appendString_body (drop n (c # s)) @ dquote # rest"]
        by simp
    next
      case ok: False
      note v = DecodeRune_valid [OF dec ok False, of "[]"]
      show ?thesis
      proof (cases "r = 0x2028 \<or> r = 0x2029")
        case sep: True
        from "2.IH"(4) [OF False dec [symmetric] ok sep]
        have ih: "scan_string (appendString_body (drop n (c # s)) @ dquote # rest)
                    = Some (appendString_body (drop n (c # s)), rest)" .
        show ?thesis
          using False dec ok sep ih
            scan_string_u [OF is_hex_digits(2) is_hex_digits(1) is_hex_digits(2)
              is_hex_hex [of "r mod 16"],
              of "appendString_body (drop n (c # s)) @ dquote # rest"]
          by auto
      next
        case plain: False
        from "2.IH"(5) [OF False dec [symmetric] ok plain]
        have ih: "scan_string (appendString_body (drop n (c # s)) @ dquote # rest)
                    = Some (appendString_body (drop n (c # s)), rest)" .
        have run: "\<forall>x \<in> set (take n (c # s)). 0x80 \<le> byte x" using v by blast
        show ?thesis
          using False dec ok plain ih
            scan_string_high_run [OF run, of "appendString_body (drop n (c # s)) @ dquote # rest"]
          by auto
      qed
    qed
  qed
qed

lemma digit_char_props: "n < 10 \<Longrightarrow> is_digit (digit_char n) \<and> byte (digit_char n) = 48 + n"
  by (simp add: is_digit_def digit_char_def byte_def)

lemma FormatUint_digits: "FormatUint n \<noteq> [] \<and> list_all is_digit (FormatUint n)"
proof (induction n rule: FormatUint.induct)
  case (1 n)
  show ?case
  proof (cases "n < 10")
    case True
    then show ?thesis by (simp add: FormatUint.simps [of n] digit_char_props)
  next
    case False
    with 1 show ?thesis by (simp add: FormatUint.simps [of n] digit_char_props)
  qed
qed

lemma digits_val_snoc: "digits_val (ds @ [c]) = 10 * digits_val ds + (byte c - 48)"
  by (simp add: digits_val_def)

lemma digits_val_FormatUint: "digits_val (FormatUint n) = n"
proof (induction n rule: FormatUint.induct)
  case (1 n)
  show ?case
  proof (cases "n < 10")
    case True
    then show ?thesis by (simp add: FormatUint.simps [of n] digits_val_def digit_char_props)
  next
    case False
    with 1 have "digits_val (FormatUint (n div 10)) = n div 10" by simp
    then show ?thesis
      using False by (simp add: FormatUint.simps [of n] digits_val_snoc digit_char_props)
  qed
qed

lemma FormatUint_leading_zero:
  assumes "FormatUint n = CHR ''0'' # ds"
  shows "ds = []"
proof (cases "n = 0")
  case True
  with assms show ?thesis by (simp add: FormatUint.simps [of 0] digit_char_def)
next
  case False
  have "\<And>ds. FormatUint n = CHR ''0'' # ds \<Longrightarrow> n \<noteq> 0 \<Longrightarrow> False"
  proof (induction n rule: FormatUint.induct)
    case (1 n)
    show ?case
    proof (cases "n < 10")
      case True
      with "1.prems" have "digit_char n = CHR ''0''" by (simp add: FormatUint.simps [of n])
      then have "byte (digit_char n) = 48" by (simp add: byte_def)
      with True "1.prems"(2) show False by (simp add: digit_char_props)
    next
      case False
      obtain d ds' where f: "FormatUint (n div 10) = d # ds'"
        using FormatUint_digits [of "n div 10"] by (cases "FormatUint (n div 10)") auto
      with "1.prems"(1) False have "d = CHR ''0''" by (simp add: FormatUint.simps [of n])
      moreover have "n div 10 \<noteq> 0" using False by simp
      ultimately show False using "1.IH" [OF False] f by blast
    qed
  qed
  with assms False show ?thesis by blast
qed

lemma span_digits:
  assumes "list_all is_digit ds" "\<not> is_digit c"
  shows "takeWhile is_digit (ds @ c # rest) = ds" and "dropWhile is_digit (ds @ c # rest) = c # rest"
  using assms by (induction ds) auto

lemma comma_props: "\<not> is_digit CHR '',''"
  by (simp add: is_digit_def byte_def)

lemma lex_frac_comma: "lex_frac lit (CHR '','' # rest) = Some (lit, CHR '','' # rest)"
  by (simp add: lex_frac_def lex_exp_def)

lemma lex_number_FormatUint:
  "lex_number (FormatUint n @ CHR '','' # rest) = Some (FormatUint n, CHR '','' # rest)"
proof -
  obtain d ds where f: "FormatUint n = d # ds" and dg: "is_digit d" "list_all is_digit ds"
    using FormatUint_digits [of n] by (cases "FormatUint n") auto
  have nm: "d \<noteq> CHR ''-''" using dg(1) by (auto simp add: is_digit_def byte_def)
  show ?thesis
  proof (cases "d = CHR ''0''")
    case True
    with f have "ds = []" using FormatUint_leading_zero by blast
    with True f show ?thesis by (simp add: lex_number_def lex_frac_comma)
  next
    case False
    with f nm dg show ?thesis
      by (simp add: lex_number_def span_digits [OF dg(2) comma_props] lex_frac_comma)
  qed
qed

lemma lex_number_FormatInt:
  "lex_number (FormatInt i @ CHR '','' # rest) = Some (FormatInt i, CHR '','' # rest)"
proof (cases "i < 0")
  case False
  then show ?thesis by (simp add: FormatInt_def lex_number_FormatUint)
next
  case True
  let ?n = "nat (- i)"
  obtain d ds where f: "FormatUint ?n = d # ds" and dg: "is_digit d" "list_all is_digit ds"
    using FormatUint_digits [of ?n] by (cases "FormatUint ?n") auto
  show ?thesis
  proof (cases "d = CHR ''0''")
    case z: True
    with f have "ds = []" using FormatUint_leading_zero by blast
    with z f True show ?thesis by (simp add: FormatInt_def lex_number_def lex_frac_comma)
  next
    case nz: False
    with f dg True show ?thesis
      by (simp add: FormatInt_def lex_number_def span_digits [OF dg(2) comma_props] lex_frac_comma)
  qed
qed

lemma ParseInt_FormatInt:
  assumes "- (2 ^ 63) \<le> i" "i < 2 ^ 63"
  shows "ParseInt (FormatInt i) = Some i"
proof -
  let ?n = "nat (if i < 0 then - i else i)"
  obtain d ds where f: "FormatUint ?n = d # ds" and dg: "is_digit d" "list_all is_digit ds"
    using FormatUint_digits [of ?n] by (cases "FormatUint ?n") auto
  have nm: "d \<noteq> CHR ''-''" "d \<noteq> CHR ''+''" using dg(1) by (auto simp add: is_digit_def byte_def)
  have v: "digits_val (d # ds) = ?n" using digits_val_FormatUint [of ?n] f by simp
  show ?thesis
  proof (cases "i < 0")
    case True
    with f dg nm v assms show ?thesis by (simp add: ParseInt_def FormatInt_def Let_def)
  next
    case False
    with f dg nm v assms show ?thesis by (simp add: ParseInt_def FormatInt_def Let_def)
  qed
qed

lemma lex_punct:
  "lex_tokens (CHR ''{'' # t) = map_option ((#) TLBrace) (lex_tokens t)"
  "lex_tokens (CHR ''}'' # t) = map_option ((#) TRBrace) (lex_tokens t)"
  "lex_tokens (CHR '':'' # t) = map_option ((#) TColon) (lex_tokens t)"
  "lex_tokens (CHR '','' # t) = map_option ((#) TComma) (lex_tokens t)"
  by (simp_all add: isSpace_def)



lemma lex_string:
  assumes "scan_string s = Some (raw, rest)" "unquote raw = Some str"
  shows "lex_tokens (dquote # s) = map_option ((#) (TString str)) (lex_tokens rest)"
  using assms by (simp add: isSpace_def dquote_def)

lemma lex_appendString:
  assumes "unquote (appendString_body m) = Some m'"
  shows "lex_tokens (appendString m @ t) = map_option ((#) (TString m')) (lex_tokens t)"
  using lex_string [OF scan_string_appendString_body assms, of t]
  by (simp add: appendString_def)

lemma digit_not_punct:
  assumes "is_digit c \<or> c = CHR ''-''"
  shows "\<not> isSpace c \<and> c \<noteq> CHR ''{'' \<and> c \<noteq> CHR ''}'' \<and> c \<noteq> CHR ''['' \<and> c \<noteq> CHR '']''
       \<and> c \<noteq> CHR '':'' \<and> c \<noteq> CHR '','' \<and> c \<noteq> dquote"
  using assms by (auto simp add: is_digit_def isSpace_def byte_def dquote_def)

lemma FormatInt_first:
  obtains c cs where "FormatInt i = c # cs" "is_digit c \<or> c = CHR ''-''"
proof (cases "i < 0")
  case True
  then show ?thesis using that by (simp add: FormatInt_def)
next
  case False
  then show ?thesis
    using that FormatUint_digits [of "nat i"] by (cases "FormatUint (nat i)") (auto simp add: FormatInt_def)
qed

lemma lex_FormatInt:
  "lex_tokens (FormatInt i @ CHR '','' # rest) = map_option ((#) (TNumber (FormatInt i))) (lex_tokens (CHR '','' # rest))"
proof -
  obtain c cs where f: "FormatInt i = c # cs" and c: "is_digit c \<or> c = CHR ''-''"
    by (rule FormatInt_first)
  have n: "lex_number (c # cs @ CHR '','' # rest) = Some (c # cs, CHR '','' # rest)"
    using lex_number_FormatInt [of i rest] f by simp
  show ?thesis
    unfolding f using digit_not_punct [OF c] c n by (auto simp del: lex_tokens.simps simp add: lex_tokens.simps(2) [of c])
qed

lemma field_names_plain:
  "appendString_body ''error'' = ''error''" "valid_utf8 ''error''"
  "appendString_body ''status_code'' = ''status_code''" "valid_utf8 ''status_code''"
  "appendString_body ''message'' = ''message''" "valid_utf8 ''message''"
  by (simp_all add: htmlSafe_def byte_def dquote_def backslash_def)

lemma lex_json_key:
  assumes "appendString_body name = name" "valid_utf8 name"
  shows "lex_tokens (json_key name @ t) = map_option (\<lambda>ts. TString name # TColon # ts) (lex_tokens t)"
proof -
  have "json_key name @ t = appendString name @ CHR '':'' # t"
    by (simp add: json_key_def appendString_def assms(1))
  then show ?thesis
    by (simp del: lex_tokens.simps add: lex_appendString [OF unquote_appendString_body [OF assms(2)]] lex_punct option.map_comp comp_def)
qed






lemma char_of_byte_eq: "byte c = n mod 256 \<Longrightarrow> char_of n = c"
  by (metis byte_def char_of_char char_of_mod_256)



lemma valid_yes: "valid_utf8 ''yes''"
  by (simp add: byte_def)

lemma lex_wrong: "lex_tokens wrong_type_payload = Some [TLBrace, TString ''error'', TColon, TString ''yes'', TRBrace]"
proof -
  have "lex_tokens (appendString ''yes'' @ [CHR ''}'']) = Some [TString ''yes'', TRBrace]"
    by (simp add: lex_appendString [OF unquote_appendString_body [OF valid_yes]] isSpace_def)
  then have "lex_tokens (json_key ''error'' @ appendString ''yes'' @ [CHR ''}''])
               = Some [TString ''error'', TColon, TString ''yes'', TRBrace]"
    by (simp only: lex_json_key [OF field_names_plain(1,2)] option.map)
  then show ?thesis
    by (simp del: lex_tokens.simps add: wrong_type_payload_def lex_punct)
qed

lemma wrong_type_payload_result:
  "parse_json wrong_type_payload = Some (JObject [(''error'', JString ''yes'')])
   \<and> NewRestErrorFromBytes wrong_type_payload = (None, Some (ErrorsNew ''invalid error json response''))"
  by (simp add: parse_json_def lex_wrong maxNestingDepth_def NewRestErrorFromBytes_def json_Unmarshal_def
      find_field_def store_field_def)

lemma wrong_text:
  "wrong_type_payload = [CHR ''{'', CHR 0x22, CHR ''e'', CHR ''r'', CHR ''r'', CHR ''o'', CHR ''r'', CHR 0x22,
     CHR '':'', CHR 0x22, CHR ''y'', CHR ''e'', CHR ''s'', CHR 0x22, CHR ''}'']"
  by (simp add: wrong_type_payload_def json_key_def appendString_def htmlSafe_def byte_def dquote_def
      backslash_def)

lemma store_field_accepts:
  "field_accepts f v \<Longrightarrow> \<exists>e'. store_field f v e = Inr e'
     \<and> (f \<noteq> Field_error \<longrightarrow> ErrError e' = ErrError e)
     \<and> (f \<noteq> Field_status_code \<longrightarrow> ErrStatusCode e' = ErrStatusCode e)
     \<and> (f \<noteq> Field_message \<longrightarrow> ErrMessage e' = ErrMessage e)"
  by (cases v) (auto simp add: field_accepts_def store_field_def split: option.splits)


lemma decode_object_ok:
  "list_all member_ok ms \<Longrightarrow>
   \<exists>e'. decode_object ms e = Inr e'
     \<and> (\<not> names_field Field_error ms \<longrightarrow> ErrError e' = ErrError e)
     \<and> (\<not> names_field Field_status_code ms \<longrightarrow> ErrStatusCode e' = ErrStatusCode e)
     \<and> (\<not> names_field Field_message ms \<longrightarrow> ErrMessage e' = ErrMessage e)"
proof (induction ms arbitrary: e)
  case Nil
  show ?case by (simp add: names_field_def)
next
  case (Cons m ms)
  obtain k v where m: "m = (k, v)" by (cases m)
  from Cons.prems have rest: "list_all member_ok ms" by simp
  show ?case
  proof (cases "find_field k")
    case None
    with Cons.IH [OF rest, of e] m show ?thesis by (auto simp add: names_field_def)
  next
    case (Some f)
    with Cons.prems m have "field_accepts f v" by (simp add: member_ok_def)
    from store_field_accepts [OF this, of e] obtain e1 where
      s: "store_field f v e = Inr e1"
      and keep: "f \<noteq> Field_error \<longrightarrow> ErrError e1 = ErrError e"
        "f \<noteq> Field_status_code \<longrightarrow> ErrStatusCode e1 = ErrStatusCode e"
        "f \<noteq> Field_message \<longrightarrow> ErrMessage e1 = ErrMessage e"
      by blast
    from Cons.IH [OF rest, of e1] obtain e' where
      d: "decode_object ms e1 = Inr e'"
      and k': "\<not> names_field Field_error ms \<longrightarrow> ErrError e' = ErrError e1"
        "\<not> names_field Field_status_code ms \<longrightarrow> ErrStatusCode e' = ErrStatusCode e1"
        "\<not> names_field Field_message ms \<longrightarrow> ErrMessage e' = ErrMessage e1"
      by blast
    have "decode_object (m # ms) e = Inr e'" using m Some s d by simp
    moreover have "\<not> names_field g (m # ms) \<longrightarrow> g \<noteq> f \<and> \<not> names_field g ms" for g
      using m Some by (auto simp add: names_field_def)
    ultimately show ?thesis using keep k' by metis
  qed
qed


lemma extra_names_plain:
  "appendString_body ''Status_Code'' = ''Status_Code''" "valid_utf8 ''Status_Code''"
  "appendString_body ''x'' = ''x''" "valid_utf8 ''x''"
  by (simp_all add: htmlSafe_def byte_def dquote_def backslash_def)

lemma FormatInt_small: "FormatInt 12 = ''12''" "FormatInt 1 = ''1''"
  by (simp_all add: FormatInt_def FormatUint.simps digit_char_def)
     (auto intro!: char_of_byte_eq simp add: byte_def)

lemma lenient_payload_tokens:
  "lex_tokens lenient_payload = Some [TLBrace, TString ''Status_Code'', TColon, TNumber ''12'', TComma,
     TString ''x'', TColon, TLBracket, TNumber ''1'', TComma, TLBrace, TRBrace, TRBracket, TRBrace]"
proof -
  have a: "lex_tokens ''{}]}'' = Some [TLBrace, TRBrace, TRBracket, TRBrace]"
    by (simp add: isSpace_def)
  have b: "lex_tokens (''1'' @ CHR '','' # ''{}]}'') = Some [TNumber ''1'', TComma, TLBrace, TRBrace, TRBracket, TRBrace]"
    using lex_FormatInt [of 1 "''{}]}''"] a by (simp del: lex_tokens.simps add: FormatInt_small lex_punct)
  have c: "lex_tokens (CHR ''['' # ''1'' @ CHR '','' # ''{}]}'')
             = Some [TLBracket, TNumber ''1'', TComma, TLBrace, TRBrace, TRBracket, TRBrace]"
    using b by (simp add: lex_tokens.simps(2) [of "CHR ''[''"] isSpace_def del: lex_tokens.simps)
  have d: "lex_tokens (json_key ''x'' @ CHR ''['' # ''1'' @ CHR '','' # ''{}]}'')
             = Some [TString ''x'', TColon, TLBracket, TNumber ''1'', TComma, TLBrace, TRBrace, TRBracket, TRBrace]"
    by (simp only: lex_json_key [OF extra_names_plain(3,4)] c option.map)
  have e: "lex_tokens (''12'' @ CHR '','' # json_key ''x'' @ CHR ''['' # ''1'' @ CHR '','' # ''{}]}'')
             = Some [TNumber ''12'', TComma, TString ''x'', TColon, TLBracket, TNumber ''1'', TComma,
                     TLBrace, TRBrace, TRBracket, TRBrace]"
    using lex_FormatInt [of 12 "json_key ''x'' @ CHR ''['' # ''1'' @ CHR '','' # ''{}]}''"]
    by (simp only: FormatInt_small lex_punct d option.map)
  have f: "lex_tokens (json_key ''Status_Code'' @ ''12'' @ CHR '','' # json_key ''x'' @ CHR ''['' # ''1'' @ CHR '','' # ''{}]}'')
             = Some [TString ''Status_Code'', TColon, TNumber ''12'', TComma, TString ''x'', TColon,
                     TLBracket, TNumber ''1'', TComma, TLBrace, TRBrace, TRBracket, TRBrace]"
    by (simp only: lex_json_key [OF extra_names_plain(1,2)] e option.map)
  have m: "lenient_payload = CHR ''{'' # json_key ''Status_Code'' @ ''12'' @ CHR '','' # json_key ''x''
             @ CHR ''['' # ''1'' @ CHR '','' # ''{}]}''"
    by (simp add: lenient_payload_def)
  show ?thesis by (simp only: m lex_punct f option.map)
qed

lemma char_of_eq_byte: "char_of (n::nat) = c \<longleftrightarrow> n mod 256 = byte c"
  by (auto simp add: byte_def char_of_eq_iff take_bit_eq_mod)

lemma lenient_payload_parse:
  "parse_json lenient_payload
     = Some (JObject [(''Status_Code'', JNumber ''12''), (''x'', JArray [JNumber ''1'', JObject []])])"
  by (simp add: parse_json_def lenient_payload_tokens maxNestingDepth_def)

lemma foldName_Status_Code: "foldName ''Status_Code'' = ''STATUS_CODE''"
  by (simp add: byte_def char_of_eq_byte)

lemma find_field_extra: "find_field ''Status_Code'' = Some Field_status_code" "find_field ''x'' = None"
  by (simp_all add: find_field_def byte_def char_of_eq_byte)

lemma ParseInt_12: "ParseInt ''12'' = Some 12"
  using ParseInt_FormatInt [of 12] by (simp add: FormatInt_small)

lemma lenient_payload_members:
  "list_all member_ok [(''Status_Code'', JNumber ''12''), (''x'', JArray [JNumber ''1'', JObject []])]"
  by (simp add: member_ok_def find_field_extra field_accepts_def ParseInt_12)

lemma lenient_payload_result:
  "NewRestErrorFromBytes lenient_payload = (Some \<lparr>ErrError = False, ErrStatusCode = 12, ErrMessage = []\<rparr>, None)"
  by (simp add: NewRestErrorFromBytes_def json_Unmarshal_def lenient_payload_parse find_field_extra
      store_field_def ParseInt_12 zero_restErr_def)

lemma empty_object_result: "NewRestErrorFromBytes ''{}'' = (Some zero_restErr, None)"
  by (simp add: NewRestErrorFromBytes_def json_Unmarshal_def parse_json_def isSpace_def maxNestingDepth_def)

section \<open>The dispatcher under mocking\<close>

text \<open>
  C1. With mocking enabled, a dispatch whose method and URL have a registered mock should
  return that mock's canned response and error, and one without a registered mock should
  return the "no mock found" error. The test \<open>mock != nil\<close> is the wrong way round: for any
  registered mock, \<open>MakeRequest\<close>, \<open>Post\<close> and \<open>PostForm\<close> return the nil response with
  the "no mock found" error, and with an empty registry each of them dereferences the nil
  mock and panics. No request reaches the transport either way.
\<close>

theorem dispatch_with_mocks_inverted:
  "MakeRequest env (AddMock mock (StartMockups st)) (HTTPMethod mock) (URL mock) body headers
     = (Returned (None, Some (ErrorsNew ''no mock found for given request'')), [])
   \<and> Post env (AddMock (mock\<lparr>HTTPMethod := MethodPost\<rparr>) (StartMockups st)) (URL mock) body headers
     = (Returned (None, Some (ErrorsNew ''no mock found for given request'')), [])
   \<and> PostForm env (AddMock (mock\<lparr>HTTPMethod := MethodPost\<rparr>) (StartMockups st)) (URL mock) data headers
     = (Returned (None, Some (ErrorsNew ''no mock found for given request'')), [])
   \<and> MakeRequest env (StartMockups init_state) method url body headers = (NilPointerPanic, [])
   \<and> Post env (StartMockups init_state) url body headers = (NilPointerPanic, [])
   \<and> PostForm env (StartMockups init_state) url data headers = (NilPointerPanic, [])"
  by (simp add: MakeRequest_def Post_def PostForm_def AddMock_def StartMockups_def init_state_def)

text \<open>
  C2. After \<open>FlushMockups\<close>, with mocking still enabled, a dispatch to a method and URL
  that had a mock should return the "no mock found" error without panicking. The registry
  is empty then, the lookup yields the nil pointer, and the same inverted test sends the
  call to \<open>mock.Response\<close>: it panics.
\<close>

theorem dispatch_after_flush_panics:
  "MakeRequest env (FlushMockups (AddMock mock (StartMockups st))) (HTTPMethod mock) (URL mock)
      body headers = (NilPointerPanic, [])
   \<and> Post env (FlushMockups (AddMock (mock\<lparr>HTTPMethod := MethodPost\<rparr>) (StartMockups st)))
      (URL mock) body headers = (NilPointerPanic, [])"
  by (simp add: MakeRequest_def Post_def FlushMockups_def AddMock_def StartMockups_def)

text \<open>
  C8. While mocking is enabled, the result of \<open>MakeRequest\<close> and \<open>Post\<close> is the same for
  any two bodies, any two header collections and any two surroundings (so whatever
  \<open>json.Marshal\<close> would do with the body, it is not consulted): the call either panics or
  returns the "no mock found" error, never an error of the serializer, and sends nothing.
\<close>

theorem mocked_dispatch_ignores_body:
  fixes env :: "('v, 'r) env" and env' :: "('w, 'r) env"
  assumes "enabledMocks st"
  shows "MakeRequest env st method url b1 h1 = MakeRequest env' st method url b2 h2
       \<and> Post env st url b1 h1 = Post env' st url b2 h2
       \<and> MakeRequest env st method url b1 h1 \<in>
           {(NilPointerPanic, []),
            (Returned (None, Some (ErrorsNew ''no mock found for given request'')), [])}
       \<and> Post env st url b1 h1 \<in>
           {(NilPointerPanic, []),
            (Returned (None, Some (ErrorsNew ''no mock found for given request'')), [])}"
  using assms by (simp add: MakeRequest_def Post_def split: option.splits)

theorem mocked_dispatch_ignores_body_witness:
  "enabledMocks (AddMock demo_mock (StartMockups init_state))
   \<and> MakeRequest demo_env (AddMock demo_mock (StartMockups init_state)) ''POST'' ''http://x/y''
        (BValue 0) []
     = MakeRequest demo_env (AddMock demo_mock (StartMockups init_state)) ''POST'' ''http://x/y''
        (BString ''{}'') [(''Accept'', [''text/plain''])]
   \<and> MakeRequest demo_env (AddMock demo_mock (StartMockups init_state)) ''POST'' ''http://x/y''
        (BValue 0) []
     = (Returned (None, Some (ErrorsNew ''no mock found for given request'')), [])"
  using mocked_dispatch_ignores_body [of "AddMock demo_mock (StartMockups init_state)"
      demo_env "''POST''" "''http://x/y''" "BValue 0" "[]" demo_env "BString ''{}''"
      "[(''Accept'', [''text/plain''])]"]
  by (simp add: MakeRequest_def AddMock_def StartMockups_def init_state_def demo_mock_def
      getMockID_def)

text \<open>
  C10. The registry is a map from the composite key to one mock. When two successive
  \<open>AddMock\<close> calls register mocks with equal method and equal URL, the second replaces the
  first: the key then yields the second mock, the set of keys is the one after the first
  call, and the registry is the one the second call alone would have produced.
\<close>

theorem AddMock_last_wins:
  assumes "HTTPMethod m1 = HTTPMethod m2" and "URL m1 = URL m2"
  shows "mocks (AddMock m2 (AddMock m1 st)) (getMockID (HTTPMethod m1) (URL m1)) = Some m2
       \<and> dom (mocks (AddMock m2 (AddMock m1 st))) = dom (mocks (AddMock m1 st))
       \<and> AddMock m2 (AddMock m1 st) = AddMock m2 st"
  using assms by (auto simp add: AddMock_def)

theorem AddMock_last_wins_witness:
  "HTTPMethod demo_mock = HTTPMethod (demo_mock\<lparr>Response := Some 404\<rparr>)
   \<and> URL demo_mock = URL (demo_mock\<lparr>Response := Some 404\<rparr>)
   \<and> mocks (AddMock (demo_mock\<lparr>Response := Some 404\<rparr>) (AddMock demo_mock init_state))
        ''POST_http://x/y'' = Some (demo_mock\<lparr>Response := Some 404\<rparr>)"
  using AddMock_last_wins [of demo_mock "demo_mock\<lparr>Response := Some 404\<rparr>" init_state]
  by (simp add: demo_mock_def getMockID_def AddMock_def init_state_def)

section \<open>The dispatcher without mocking\<close>



section \<open>Logger levels\<close>

text \<open>
  C6. \<open>getLevel\<close> should map each of the level strings debug, info, warning, warn, error,
  panic and fatal to its severity and every other string to info. It does so for six of the
  seven: the switch has a case for "warn" but none for "warning", the value of the package's
  own constant \<open>WarningLevel\<close>, which therefore falls to the default and yields info.
\<close>

theorem getLevel_cases:
  "getLevel ''debug'' = zap_DebugLevel \<and> getLevel ''info'' = zap_InfoLevel
   \<and> getLevel ''warn'' = zap_WarnLevel \<and> getLevel ''error'' = zap_ErrorLevel
   \<and> getLevel ''panic'' = zap_PanicLevel \<and> getLevel ''fatal'' = zap_FatalLevel
   \<and> getLevel WarningLevel = zap_InfoLevel"
  by (simp add: getLevel_def WarningLevel_def)

text \<open>
  C7. A logger built at level "error" writes nothing for \<open>Debug\<close>, \<open>Info\<close> and \<open>Warning\<close>,
  and writes one record to each of its output sinks (of which there is at least one) for
  \<open>Error\<close>; a logger built at level "debug" writes records for all four calls.
\<close>

theorem level_filter:
  "(NewLogger can_open ''error'' config withMeta = Inr l \<longrightarrow>
      Debug l msg tags = [] \<and> Info l msg tags = [] \<and> Warning l msg tags = []
      \<and> Error named_error l msg err tags \<noteq> []
      \<and> map fst (Error named_error l msg err tags) = zl_outputs l)
   \<and> (NewLogger can_open ''debug'' config withMeta = Inr l' \<longrightarrow>
      Debug l' msg tags \<noteq> [] \<and> Info l' msg tags \<noteq> [] \<and> Warning l' msg tags \<noteq> []
      \<and> Error named_error l' msg err tags \<noteq> [])"
  by (auto simp add: NewLogger_def Build_def getLevel_def Debug_def Info_def Warning_def
        Error_def zap_log_def Let_def comp_def split: if_splits)

theorem level_filter_witness:
  "NewLogger (\<lambda>s. True) ''error'' \<lparr>LogOutputTo = [], LoggErrsTo = []\<rparr> [] = Inr (demo_logger zap_ErrorLevel)
   \<and> NewLogger (\<lambda>s. True) ''debug'' \<lparr>LogOutputTo = [], LoggErrsTo = []\<rparr> [] = Inr (demo_logger zap_DebugLevel)
   \<and> Warning (demo_logger zap_ErrorLevel) ''m'' [] = []
   \<and> Error (\<lambda>e. 0) (demo_logger zap_ErrorLevel) ''m'' None [] \<noteq> []
   \<and> Warning (demo_logger zap_DebugLevel) ''m'' [] \<noteq> []"
  using level_filter [of "\<lambda>s. True" "\<lparr>LogOutputTo = [], LoggErrsTo = []\<rparr>" "[]"
      "demo_logger zap_ErrorLevel" "''m''" "[]" "\<lambda>e. 0" None "demo_logger zap_DebugLevel"]
  by (simp add: NewLogger_def Build_def getLevel_def demo_logger_def)

section \<open>The REST error and its JSON form\<close>






text \<open>
  C9. \<open>NewRestErrorFromBytes\<close> succeeds on every payload that is a JSON object in which each
  member naming one of the fields \<open>error\<close>, \<open>status_code\<close>, \<open>message\<close> holds \<open>null\<close> or a
  value of the field's type (a boolean, an integer literal within 64 bits, a string). Members
  with other names are skipped, and a field that no member names is false, 0 or the empty
  string in the result. Nothing is required to be present.
\<close>

theorem lenient_object_decoding:
  assumes "parse_json bytes = Some (JObject ms)" and "list_all member_ok ms"
  shows "\<exists>e. NewRestErrorFromBytes bytes = (Some e, None)
           \<and> (\<not> names_field Field_error ms \<longrightarrow> ErrError e = False)
           \<and> (\<not> names_field Field_status_code ms \<longrightarrow> ErrStatusCode e = 0)
           \<and> (\<not> names_field Field_message ms \<longrightarrow> ErrMessage e = [])"
proof -
  from decode_object_ok [OF assms(2), of zero_restErr] obtain e where
    "decode_object ms zero_restErr = Inr e"
    "\<not> names_field Field_error ms \<longrightarrow> ErrError e = ErrError zero_restErr"
    "\<not> names_field Field_status_code ms \<longrightarrow> ErrStatusCode e = ErrStatusCode zero_restErr"
    "\<not> names_field Field_message ms \<longrightarrow> ErrMessage e = ErrMessage zero_restErr"
    by blast
  then show ?thesis
    using assms(1) by (simp add: NewRestErrorFromBytes_def json_Unmarshal_def zero_restErr_def)
qed

theorem lenient_object_decoding_witness:
  "parse_json lenient_payload
     = Some (JObject [(''Status_Code'', JNumber ''12''), (''x'', JArray [JNumber ''1'', JObject []])])
   \<and> list_all member_ok [(''Status_Code'', JNumber ''12''), (''x'', JArray [JNumber ''1'', JObject []])]
   \<and> NewRestErrorFromBytes lenient_payload
       = (Some \<lparr>ErrError = False, ErrStatusCode = 12, ErrMessage = []\<rparr>, None)
   \<and> NewRestErrorFromBytes ''{}'' = (Some zero_restErr, None)"
proof -
  note p = lenient_payload_parse
  note ok = lenient_payload_members
  from lenient_object_decoding [OF p ok] lenient_payload_result
  show ?thesis using p ok empty_object_result by simp
qed

text \<open>
  The payload \<open>{"error":"yes"}\<close> is a valid JSON object, and the call fails on it: the
  member \<open>error\<close> holds a string where the field is a boolean.
\<close>

theorem lenient_object_decoding_counterexample:
  "wrong_type_payload = [CHR ''{'', CHR 0x22, CHR ''e'', CHR ''r'', CHR ''r'', CHR ''o'', CHR ''r'', CHR 0x22,
     CHR '':'', CHR 0x22, CHR ''y'', CHR ''e'', CHR ''s'', CHR 0x22, CHR ''}'']
   \<and> parse_json wrong_type_payload = Some (JObject [(''error'', JString ''yes'')])
   \<and> NewRestErrorFromBytes wrong_type_payload = (None, Some (ErrorsNew ''invalid error json response''))"
  using wrong_type_payload_result wrong_text by simp

end
